theory Spec2Isabelle
  imports Complex_Main "HOL-Library.Word" "HOL-Library.AList"
begin

section \<open>The Dirichlet-process-discrete component model\<close>

text \<open>
  A shallow embedding of \<^verbatim>\<open>include/distributions/models/dpd.hpp\<close>.

  \<^item> \<^verbatim>\<open>uint32_t\<close> (\<^verbatim>\<open>Value\<close>, \<^verbatim>\<open>count_t\<close>) is \<open>32 word\<close>; \<^verbatim>\<open>size_t\<close> indices and
    sizes are \<open>nat\<close>; a conversion from \<^verbatim>\<open>size_t\<close> to \<^verbatim>\<open>Value\<close> is \<open>of_nat\<close> (it truncates),
    one from \<^verbatim>\<open>Value\<close> or \<^verbatim>\<open>count_t\<close> to \<^verbatim>\<open>size_t\<close> or \<^verbatim>\<open>float\<close> is \<open>unat\<close>.
  \<^item> \<^verbatim>\<open>float\<close> is \<open>real\<close>: the arithmetic is exact, there is no rounding, no infinity and
    no NaN. Division by zero and the logarithm of a non-positive number, which the C++
    answers with an infinity or a NaN, have an arbitrary real value here; theorems that
    depend on them carry the hypothesis that the argument is positive.
  \<^item> A method is a function of the object, its arguments and the generator state
    \<^verbatim>\<open>rng_t &\<close> (any type \<open>'r\<close>), returning what the method returns, the object after the
    call and the generator state after the call.
  \<^item> A failed \<^verbatim>\<open>DIST_ASSERT\<close> and an access outside a vector are error values.
\<close>

type_synonym count_t = "32 word"
type_synonym Value = "32 word"

datatype error =
  Contract_violation  \<comment> \<open>a \<^verbatim>\<open>DIST_ASSERT\<close> failed, or the counter refused a removal: fatal\<close>
  | Out_of_bounds     \<comment> \<open>an unchecked access outside a vector: no defined result in C++\<close>

text \<open>
  Modelled from the spec: \<^verbatim>\<open>DIST_ASSERT1\<close>, \<^verbatim>\<open>DIST_ASSERT2\<close> and \<^verbatim>\<open>DIST_DEBUG_LEVEL\<close> are macros
  of \<^verbatim>\<open>common.hpp\<close>, which is not among the sources. The spec: contract violations are
  reported "at two severities (always-on vs. debug-only)" and "violation is fatal". The
  debug level is a parameter \<open>lvl\<close> of every operation that asserts at a level;
  \<open>DIST_ASSERT_lvl lvl k c\<close> tells whether the assertion \<open>c\<close> of level \<open>k\<close> fires.
\<close>

definition DIST_ASSERT_lvl :: "nat \<Rightarrow> nat \<Rightarrow> bool \<Rightarrow> bool" where
  "DIST_ASSERT_lvl lvl k c = (k \<le> lvl \<and> \<not> c)"

subsection \<open>Shared\<close>

record Shared =
  gamma :: real
  alpha :: real
  beta0 :: real
  betas :: "real list"

definition OTHER :: Value where
  "OTHER = - 1"

subsection \<open>The sparse counter\<close>

text \<open>
  Modelled from the spec: \<^verbatim>\<open>SparseCounter\<close> is defined in \<^verbatim>\<open>sparse_counter.hpp\<close>, which is
  not among the sources. The spec: the sparse histogram "maps category value \<rightarrow> count,
  supports total, add/remove/merge, ordered iteration over present keys". The counts
  are those of \<^verbatim>\<open>SparseCounter<Value, count_t>\<close>, 32 bits wide.
\<close>

record SparseCounter =
  entries :: "(Value \<times> count_t) list"
  total :: count_t

text \<open>Modelled from the spec: \<^verbatim>\<open>get_count(value)\<close>; a value that is not present counts 0.\<close>

definition get_count :: "SparseCounter \<Rightarrow> Value \<Rightarrow> count_t" where
  "get_count c k = (case map_of (entries c) k of None \<Rightarrow> 0 | Some n \<Rightarrow> n)"

text \<open>Modelled from the spec: \<^verbatim>\<open>get_total()\<close>.\<close>

definition get_total :: "SparseCounter \<Rightarrow> count_t" where
  "get_total c = total c"

text \<open>Modelled from the spec: \<^verbatim>\<open>clear()\<close>, also the state of a newly constructed counter.\<close>

definition SparseCounter_clear :: SparseCounter where
  "SparseCounter_clear = \<lparr>entries = [], total = 0\<rparr>"

text \<open>Modelled from the spec: "\<^verbatim>\<open>add(value)\<close> \<rightarrow> new_count".\<close>

definition SparseCounter_add :: "SparseCounter \<Rightarrow> Value \<Rightarrow> count_t \<times> SparseCounter" where
  "SparseCounter_add c k =
     (let n = get_count c k + 1
      in (n, \<lparr>entries = AList.update k n (entries c), total = total c + 1\<rparr>))"

text \<open>
  Modelled from the spec: "\<^verbatim>\<open>remove(value)\<close> \<rightarrow> new_count (fails if absent)"; removal "fails
  (contract violation, not a recoverable error) if v has zero count". A key whose count
  reaches zero is no longer present.
\<close>

definition SparseCounter_remove ::
    "SparseCounter \<Rightarrow> Value \<Rightarrow> error + (count_t \<times> SparseCounter)" where
  "SparseCounter_remove c k =
     (case map_of (entries c) k of
        None \<Rightarrow> Inl Contract_violation
      | Some n \<Rightarrow>
          if n = 0 then Inl Contract_violation
          else
            let n' = n - 1
            in Inr (n',
                 \<lparr>entries = (if n' = 0 then AList.delete k (entries c)
                             else AList.update k n' (entries c)),
                  total = total c - 1\<rparr>))"

text \<open>
  Modelled from the spec: "ordered iteration yielding (value, count) pairs for present
  keys only". This is the list a range-based \<^verbatim>\<open>for\<close> over the counter visits.
\<close>

definition SparseCounter_items :: "SparseCounter \<Rightarrow> (Value \<times> count_t) list" where
  "SparseCounter_items c =
     map (\<lambda>k. (k, get_count c k)) (sort (remdups (map fst (entries c))))"

subsection \<open>Group\<close>

record Group =
  counts :: SparseCounter

definition Group_init :: "Group \<Rightarrow> Shared \<Rightarrow> 'r \<Rightarrow> Group \<times> 'r" where
  "Group_init g sh rng = (g\<lparr>counts := SparseCounter_clear\<rparr>, rng)"

text \<open>
  \<^verbatim>\<open>Group::add_value\<close> and \<^verbatim>\<open>Group::remove_value\<close> are declared \<^verbatim>\<open>void\<close>: the count that the
  counter returns is dropped. The first component of the result is the value of the call
  expression, \<open>None\<close> for a \<^verbatim>\<open>void\<close> method.
\<close>

definition Group_add_value ::
    "Group \<Rightarrow> Shared \<Rightarrow> Value \<Rightarrow> 'r \<Rightarrow> count_t option \<times> Group \<times> 'r" where
  "Group_add_value g sh v rng =
     (case SparseCounter_add (counts g) v of
        (n, c) \<Rightarrow> (None, g\<lparr>counts := c\<rparr>, rng))"

definition Group_remove_value ::
    "Group \<Rightarrow> Shared \<Rightarrow> Value \<Rightarrow> 'r \<Rightarrow> error + (count_t option \<times> Group \<times> 'r)" where
  "Group_remove_value g sh v rng =
     (case SparseCounter_remove (counts g) v of
        Inl e \<Rightarrow> Inl e
      | Inr (n, c) \<Rightarrow> Inr (None, g\<lparr>counts := c\<rparr>, rng))"

subsection \<open>Scalar and vector kernels\<close>

text \<open>
  Modelled from the spec: \<^verbatim>\<open>fast_log\<close> is defined in \<^verbatim>\<open>special.hpp\<close>, which is not among the
  sources. The spec: "Scalar approximations: fast natural log". In exact arithmetic it
  is the natural logarithm.
\<close>

definition fast_log :: "real \<Rightarrow> real" where
  "fast_log x = ln x"

text \<open>
  Modelled from the spec: \<^verbatim>\<open>vector_log\<close> is defined in \<^verbatim>\<open>vector_math.hpp\<close>, which is not
  among the sources. The spec: "elementwise natural log over a dense buffer in place".
  The first \<open>n\<close> entries of the buffer are replaced.
\<close>

definition vector_log :: "nat \<Rightarrow> real list \<Rightarrow> error + real list" where
  "vector_log n xs =
     (if n \<le> length xs then Inr (map ln (take n xs) @ drop n xs) else Inl Out_of_bounds)"

text \<open>
  Modelled from the spec: \<^verbatim>\<open>vector_add_subtract\<close> is defined in \<^verbatim>\<open>vector_math.hpp\<close>, which is
  not among the sources. The spec: "elementwise add then subtract fused accumulate
  (\<^verbatim>\<open>accum[i] += a[i] - b[i]\<close>) over equal-length dense buffers".
\<close>

definition vector_add_subtract ::
    "nat \<Rightarrow> real list \<Rightarrow> real list \<Rightarrow> real list \<Rightarrow> error + real list" where
  "vector_add_subtract n accum a b =
     (if n \<le> length accum \<and> n \<le> length a \<and> n \<le> length b
      then Inr (map (\<lambda>i. accum ! i + (a ! i - b ! i)) [0..<n] @ drop n accum)
      else Inl Out_of_bounds)"

text \<open>\<^verbatim>\<open>std::vector::resize(n, x)\<close>: cut to \<open>n\<close> elements, or filled up to \<open>n\<close> with \<open>x\<close>.\<close>

definition resize :: "nat \<Rightarrow> 'a \<Rightarrow> 'a list \<Rightarrow> 'a list" where
  "resize n x xs = take n xs @ replicate (n - length xs) x"

subsection \<open>Scorer\<close>

record Scorer =
  scorer_scores :: "real list"  \<comment> \<open>the member \<^verbatim>\<open>scores\<close> of \<^verbatim>\<open>struct Scorer\<close>\<close>

text \<open>The second loop of \<^verbatim>\<open>Scorer::init\<close>, over the entries of the group's counter.\<close>

fun Scorer_add_counts ::
    "nat \<Rightarrow> real \<Rightarrow> (Value \<times> count_t) list \<Rightarrow> real list \<Rightarrow> error + real list" where
  "Scorer_add_counts sz counts_scale [] sc = Inr sc"
| "Scorer_add_counts sz counts_scale ((v, n) # rest) sc =
     (if \<not> unat v < sz then Inl Contract_violation
      else if \<not> unat v < length sc then Inl Out_of_bounds
      else Scorer_add_counts sz counts_scale rest
             (sc[unat v := sc ! unat v + counts_scale * real (unat n)]))"

definition Scorer_init :: "Scorer \<Rightarrow> Shared \<Rightarrow> Group \<Rightarrow> 'r \<Rightarrow> error + (Scorer \<times> 'r)" where
  "Scorer_init s sh g rng =
     (let sz = length (betas sh);
          total = unat (get_total (counts g));
          betas_scale = alpha sh / (alpha sh + real total);
          sc = map (\<lambda>b. betas_scale * b) (betas sh);
          counts_scale = 1 / (alpha sh + real total)
      in case Scorer_add_counts sz counts_scale (SparseCounter_items (counts g)) sc of
           Inl e \<Rightarrow> Inl e
         | Inr sc' \<Rightarrow> Inr (s\<lparr>scorer_scores := sc'\<rparr>, rng))"

definition Scorer_eval :: "Scorer \<Rightarrow> Shared \<Rightarrow> Value \<Rightarrow> 'r \<Rightarrow> error + (real \<times> 'r)" where
  "Scorer_eval s sh v rng =
     (let sz = length (scorer_scores s)
      in if \<not> unat v < sz then Inl Contract_violation
         else Inr (fast_log (scorer_scores s ! unat v), rng))"

text \<open>The free function \<^verbatim>\<open>score_value\<close> for one group: a fresh scorer, \<^verbatim>\<open>init\<close>, \<^verbatim>\<open>eval\<close>.\<close>

definition score_value :: "Shared \<Rightarrow> Group \<Rightarrow> Value \<Rightarrow> 'r \<Rightarrow> error + (real \<times> 'r)" where
  "score_value sh g v rng =
     (case Scorer_init \<lparr>scorer_scores = []\<rparr> sh g rng of
        Inl e \<Rightarrow> Inl e
      | Inr (scorer, rng') \<Rightarrow> Scorer_eval scorer sh v rng')"

subsection \<open>score_group\<close>

text \<open>
  \<^verbatim>\<open>fast_lgamma\<close> is defined in \<^verbatim>\<open>special.hpp\<close>, which is not among the sources; it is the
  parameter \<open>fast_lgamma\<close> of \<open>score_group\<close>.
\<close>

fun score_group_loop ::
    "(real \<Rightarrow> real) \<Rightarrow> Shared \<Rightarrow> nat \<Rightarrow> (Value \<times> count_t) list \<Rightarrow> real \<Rightarrow> error + real" where
  "score_group_loop fast_lgamma sh sz [] score = Inr score"
| "score_group_loop fast_lgamma sh sz ((v, n) # rest) score =
     (if \<not> unat v < sz then Inl Contract_violation
      else
        let prior_i = betas sh ! unat v * alpha sh
        in score_group_loop fast_lgamma sh sz rest
             (score + (fast_lgamma (prior_i + real (unat n)) - fast_lgamma prior_i)))"

definition score_group ::
    "(real \<Rightarrow> real) \<Rightarrow> Shared \<Rightarrow> Group \<Rightarrow> 'r \<Rightarrow> error + (real \<times> 'r)" where
  "score_group fast_lgamma sh g rng =
     (let sz = length (betas sh);
          total = unat (get_total (counts g))
      in case score_group_loop fast_lgamma sh sz (SparseCounter_items (counts g)) 0 of
           Inl e \<Rightarrow> Inl e
         | Inr score \<Rightarrow>
             Inr (score + (fast_lgamma (alpha sh) - fast_lgamma (alpha sh + real total)), rng))"

subsection \<open>Sampler\<close>

record Sampler =
  probs :: "real list"

text \<open>The second loop of \<^verbatim>\<open>Sampler::init\<close>: \<^verbatim>\<open>probs[i.first] += i.second\<close>, unchecked.\<close>

fun Sampler_add_counts :: "(Value \<times> count_t) list \<Rightarrow> real list \<Rightarrow> error + real list" where
  "Sampler_add_counts [] ps = Inr ps"
| "Sampler_add_counts ((v, n) # rest) ps =
     (if \<not> unat v < length ps then Inl Out_of_bounds
      else Sampler_add_counts rest (ps[unat v := ps ! unat v + real (unat n)]))"

text \<open>The buffer \<^verbatim>\<open>probs\<close> as \<^verbatim>\<open>Sampler::init\<close> has built it when it calls \<^verbatim>\<open>sample_dirichlet\<close>.\<close>

definition Sampler_init_probs :: "Shared \<Rightarrow> Group \<Rightarrow> error + real list" where
  "Sampler_init_probs sh g =
     (case Sampler_add_counts (SparseCounter_items (counts g))
             (map (\<lambda>beta. beta * alpha sh) (betas sh)) of
        Inl e \<Rightarrow> Inl e
      | Inr ps \<Rightarrow> Inr (ps @ [beta0 sh * alpha sh]))"

text \<open>
  \<^verbatim>\<open>sample_dirichlet\<close> is defined in \<^verbatim>\<open>random.hpp\<close>, which is not among the sources; it is the
  parameter \<open>sample_dirichlet\<close>, from the generator state and the concentrations to the
  probabilities, written over the same buffer, and the new generator state.
\<close>

definition Sampler_init ::
    "('r \<Rightarrow> real list \<Rightarrow> real list \<times> 'r) \<Rightarrow> Sampler \<Rightarrow> Shared \<Rightarrow> Group \<Rightarrow> 'r
      \<Rightarrow> error + (Sampler \<times> 'r)" where
  "Sampler_init sample_dirichlet s sh g rng =
     (case Sampler_init_probs sh g of
        Inl e \<Rightarrow> Inl e
      | Inr ps \<Rightarrow>
          (case sample_dirichlet rng ps of
             (ps', rng') \<Rightarrow> Inr (s\<lparr>probs := ps'\<rparr>, rng')))"

subsection \<open>Mixture\<close>

record Mixture =
  groups :: "Group list"
  scores :: "real list list"
  scores_shift :: "real list"

text \<open>\<^verbatim>\<open>const Value dim = shared.betas.size();\<close> keeps the low 32 bits of the size.\<close>

definition dim :: "Shared \<Rightarrow> Value" where
  "dim sh = of_nat (length (betas sh))"

text \<open>
  \<^verbatim>\<open>for (Value value = 0; value < dim; ++value) { ... scores[value] ... }\<close>: the body \<open>f\<close>
  rewrites row \<open>value\<close> and may fail; the second argument lists the values to visit.
\<close>

fun for_values ::
    "(nat \<Rightarrow> real list \<Rightarrow> error + real list) \<Rightarrow> nat list \<Rightarrow> real list list
      \<Rightarrow> error + real list list" where
  "for_values f [] sc = Inr sc"
| "for_values f (v # vs) sc =
     (if \<not> v < length sc then Inl Out_of_bounds
      else case f v (sc ! v) of
             Inl e \<Rightarrow> Inl e
           | Inr row \<Rightarrow> for_values f vs (sc[v := row]))"

text \<open>The loop over the groups of \<^verbatim>\<open>Mixture::init\<close>, on the pair of the two caches.\<close>

fun Mixture_init_groups ::
    "Shared \<Rightarrow> Group list \<Rightarrow> nat list \<Rightarrow> real list list \<times> real list
      \<Rightarrow> error + (real list list \<times> real list)" where
  "Mixture_init_groups sh gs [] (sc, shift) = Inr (sc, shift)"
| "Mixture_init_groups sh gs (groupid # rest) (sc, shift) =
     (if \<not> groupid < length gs then Inl Out_of_bounds
      else
        let group = gs ! groupid
        in case for_values
                  (\<lambda>v row.
                     if \<not> (groupid < length row \<and> v < length (betas sh)) then Inl Out_of_bounds
                     else Inr (row[groupid :=
                            alpha sh * betas sh ! v
                              + real (unat (get_count (counts group) (of_nat v)))]))
                  [0..<unat (dim sh)] sc of
             Inl e \<Rightarrow> Inl e
           | Inr sc' \<Rightarrow>
               if \<not> groupid < length shift then Inl Out_of_bounds
               else Mixture_init_groups sh gs rest
                      (sc', shift[groupid := alpha sh + real (unat (get_total (counts group)))]))"

definition Mixture_init :: "Mixture \<Rightarrow> Shared \<Rightarrow> 'r \<Rightarrow> error + (Mixture \<times> 'r)" where
  "Mixture_init m sh rng =
     (let group_count = length (groups m);
          shift0 = resize group_count 0 (scores_shift m);
          sc0 = resize (unat (dim sh)) [] (scores m)
      in case for_values (\<lambda>v row. Inr (resize group_count 0 row)) [0..<unat (dim sh)] sc0 of
           Inl e \<Rightarrow> Inl e
         | Inr sc1 \<Rightarrow>
            (case Mixture_init_groups sh (groups m) [0..<group_count] (sc1, shift0) of
               Inl e \<Rightarrow> Inl e
             | Inr (sc2, shift1) \<Rightarrow>
                (case vector_log group_count shift1 of
                   Inl e \<Rightarrow> Inl e
                 | Inr shift2 \<Rightarrow>
                    (case for_values (\<lambda>v row. vector_log group_count row)
                            [0..<unat (dim sh)] sc2 of
                       Inl e \<Rightarrow> Inl e
                     | Inr sc3 \<Rightarrow> Inr (m\<lparr>scores := sc3, scores_shift := shift2\<rparr>, rng)))))"

text \<open>
  \<^verbatim>\<open>groups.resize(group_count)\<close> appends a default-constructed group, which
  \<^verbatim>\<open>groups.back().init(shared, rng)\<close> then clears.
\<close>

definition Mixture_add_group :: "Mixture \<Rightarrow> Shared \<Rightarrow> 'r \<Rightarrow> error + (Mixture \<times> 'r)" where
  "Mixture_add_group m sh rng =
     (let group_count = length (groups m) + 1;
          gs = resize group_count \<lparr>counts = SparseCounter_clear\<rparr> (groups m)
      in case Group_init (last gs) sh rng of
           (g, rng') \<Rightarrow>
             (case for_values (\<lambda>v row. Inr (resize group_count 0 row))
                     [0..<unat (dim sh)] (scores m) of
                Inl e \<Rightarrow> Inl e
              | Inr sc \<Rightarrow>
                  Inr (m\<lparr>groups := gs[group_count - 1 := g],
                         scores_shift := resize group_count 0 (scores_shift m),
                         scores := sc\<rparr>, rng')))"

definition Mixture_remove_group :: "Mixture \<Rightarrow> nat \<Rightarrow> Shared \<Rightarrow> nat \<Rightarrow> error + Mixture" where
  "Mixture_remove_group m lvl sh groupid =
     (if DIST_ASSERT_lvl lvl 1 (groupid < length (groups m)) then Inl Contract_violation
      else if \<not> groupid < length (groups m) then Inl Out_of_bounds
      else
        let group_count = length (groups m) - 1
        in case
             (if groupid \<noteq> group_count then
                (if \<not> groupid < length (scores_shift m) then Inl Out_of_bounds
                 else
                   case for_values
                          (\<lambda>v vscores.
                             if \<not> groupid < length vscores then Inl Out_of_bounds
                             else Inr (vscores[groupid := last vscores]))
                          [0..<unat (dim sh)] (scores m) of
                     Inl e \<Rightarrow> Inl e
                   | Inr sc \<Rightarrow>
                       Inr (m\<lparr>groups := (groups m)[groupid := last (groups m),
                                                   group_count := groups m ! groupid],
                              scores_shift := (scores_shift m)[groupid := last (scores_shift m)],
                              scores := sc\<rparr>))
              else Inr m) of
             Inl e \<Rightarrow> Inl e
           | Inr m1 \<Rightarrow>
              (case for_values (\<lambda>v row. Inr (resize group_count 0 row))
                      [0..<unat (dim sh)] (scores m1) of
                 Inl e \<Rightarrow> Inl e
               | Inr sc \<Rightarrow>
                   Inr (m1\<lparr>groups := resize group_count \<lparr>counts = SparseCounter_clear\<rparr> (groups m1),
                           scores_shift := resize group_count 0 (scores_shift m1),
                           scores := sc\<rparr>)))"

definition Mixture_add_value ::
    "Mixture \<Rightarrow> nat \<Rightarrow> Shared \<Rightarrow> nat \<Rightarrow> Value \<Rightarrow> 'r \<Rightarrow> error + (Mixture \<times> 'r)" where
  "Mixture_add_value m lvl sh groupid v rng =
     (if DIST_ASSERT_lvl lvl 1 (groupid < length (groups m)) then Inl Contract_violation
      else if DIST_ASSERT_lvl lvl 1 (unat v < length (betas sh)) then Inl Contract_violation
      else if \<not> groupid < length (groups m) then Inl Out_of_bounds
      else
        case SparseCounter_add (counts (groups m ! groupid)) v of
          (count, c) \<Rightarrow>
            let count_sum = get_total c
            in if \<not> (unat v < length (scores m) \<and> groupid < length (scores m ! unat v)
                      \<and> unat v < length (betas sh) \<and> groupid < length (scores_shift m))
               then Inl Out_of_bounds
               else
                 Inr (m\<lparr>groups := (groups m)[groupid := (groups m ! groupid)\<lparr>counts := c\<rparr>],
                        scores := (scores m)[unat v := (scores m ! unat v)[groupid :=
                          fast_log (alpha sh * betas sh ! unat v + real (unat count))]],
                        scores_shift := (scores_shift m)[groupid :=
                          fast_log (alpha sh + real (unat count_sum))]\<rparr>, rng))"

definition Mixture_remove_value ::
    "Mixture \<Rightarrow> nat \<Rightarrow> Shared \<Rightarrow> nat \<Rightarrow> Value \<Rightarrow> 'r \<Rightarrow> error + (Mixture \<times> 'r)" where
  "Mixture_remove_value m lvl sh groupid v rng =
     (if DIST_ASSERT_lvl lvl 2 (groupid < length (groups m)) then Inl Contract_violation
      else if DIST_ASSERT_lvl lvl 1 (unat v < length (betas sh)) then Inl Contract_violation
      else if \<not> groupid < length (groups m) then Inl Out_of_bounds
      else
        case SparseCounter_remove (counts (groups m ! groupid)) v of
          Inl e \<Rightarrow> Inl e
        | Inr (count, c) \<Rightarrow>
            let count_sum = get_total c
            in if \<not> (unat v < length (scores m) \<and> groupid < length (scores m ! unat v)
                      \<and> unat v < length (betas sh) \<and> groupid < length (scores_shift m))
               then Inl Out_of_bounds
               else
                 Inr (m\<lparr>groups := (groups m)[groupid := (groups m ! groupid)\<lparr>counts := c\<rparr>],
                        scores := (scores m)[unat v := (scores m ! unat v)[groupid :=
                          fast_log (alpha sh * betas sh ! unat v + real (unat count))]],
                        scores_shift := (scores_shift m)[groupid :=
                          fast_log (alpha sh + real (unat count_sum))]\<rparr>, rng))"

text \<open>
  \<^verbatim>\<open>Mixture::score_value\<close> is a \<^verbatim>\<open>const\<close> method: it returns the accumulator after the call
  and the generator state, and there is no mixture after the call other than \<open>m\<close>.
\<close>

definition Mixture_score_value ::
    "Mixture \<Rightarrow> nat \<Rightarrow> Shared \<Rightarrow> Value \<Rightarrow> real list \<Rightarrow> 'r \<Rightarrow> error + (real list \<times> 'r)" where
  "Mixture_score_value m lvl sh v scores_accum rng =
     (if DIST_ASSERT_lvl lvl 1 (unat v < length (betas sh)) then Inl Contract_violation
      else if 2 \<le> lvl \<and> length scores_accum \<noteq> length (groups m) then Inl Contract_violation
      else
        let group_count = length (groups m)
        in if \<not> unat v < length (scores m) then Inl Out_of_bounds
           else
             case vector_add_subtract group_count scores_accum (scores m ! unat v)
                    (scores_shift m) of
               Inl e \<Rightarrow> Inl e
             | Inr accum \<Rightarrow> Inr (accum, rng))"

section \<open>Specification predicates and examples\<close>

text \<open>The example of the spec: three values with equal prior weights, \<open>alpha = 1\<close>.\<close>

definition example_shared :: Shared where
  "example_shared = \<lparr>gamma = 1 / 2, alpha = 1, beta0 = 0, betas = [1 / 3, 1 / 3, 1 / 3]\<rparr>"

text \<open>
  The sizes of a mixture's caches agree with its groups and with \<open>dim\<close>, as
  \<^verbatim>\<open>Mixture::init\<close> leaves them: one row of \<^verbatim>\<open>scores\<close> per value, one entry per group in every
  row and in \<^verbatim>\<open>scores_shift\<close>.
\<close>

definition Mixture_sizes_ok :: "Shared \<Rightarrow> Mixture \<Rightarrow> bool" where
  "Mixture_sizes_ok sh m =
     (length (scores m) = unat (dim sh)
      \<and> length (scores_shift m) = length (groups m)
      \<and> list_all (\<lambda>row. length row = length (groups m)) (scores m))"

text \<open>A group that holds the value 1 twice, and a mixture of an empty group and that group.\<close>

definition example_group :: Group where
  "example_group = \<lparr>counts = \<lparr>entries = [(1, 2)], total = 2\<rparr>\<rparr>"

definition example_mixture :: Mixture where
  "example_mixture =
     \<lparr>groups = [\<lparr>counts = SparseCounter_clear\<rparr>, example_group],
      scores = [[ln (1 / 3), ln (1 / 3)], [ln (1 / 3), ln (7 / 3)], [ln (1 / 3), ln (1 / 3)]],
      scores_shift = [ln 1, ln 3]\<rparr>"

text \<open>
  The closed forms that the cache of a mixture is meant to hold: the cell
  \<^verbatim>\<open>scores[v][g]\<close> is the logarithm of \<open>alpha * betas[v]\<close> plus the count of \<open>v\<close> in the group,
  the entry \<^verbatim>\<open>scores_shift[g]\<close> is the logarithm of \<open>alpha\<close> plus the group's total.
\<close>

definition cache_cell :: "Shared \<Rightarrow> Group \<Rightarrow> Value \<Rightarrow> real" where
  "cache_cell sh g v =
     fast_log (alpha sh * betas sh ! unat v + real (unat (get_count (counts g) v)))"

definition cache_shift :: "Shared \<Rightarrow> Group \<Rightarrow> real" where
  "cache_shift sh g = fast_log (alpha sh + real (unat (get_total (counts g))))"

text \<open>
  Cache equivalence, in the words of the spec: every cell for a value in \<open>[0, dim)\<close> and an
  active group, and every shift entry of an active group, holds its closed form.
\<close>

definition cache_equivalent :: "Shared \<Rightarrow> Mixture \<Rightarrow> bool" where
  "cache_equivalent sh m =
     (Mixture_sizes_ok sh m
      \<and> list_all
          (\<lambda>g. scores_shift m ! g = cache_shift sh (groups m ! g)
             \<and> list_all (\<lambda>v. scores m ! v ! g = cache_cell sh (groups m ! g) (of_nat v))
                 [0..<unat (dim sh)])
          [0..<length (groups m)])"

text \<open>
  The states of a run on \<open>example_shared\<close>: \<^verbatim>\<open>init\<close> on no groups, then \<^verbatim>\<open>add_group\<close>, then
  \<^verbatim>\<open>add_value(0, 0)\<close>, then \<^verbatim>\<open>remove_value(0, 0)\<close>.
\<close>

definition no_groups :: Mixture where
  "no_groups = \<lparr>groups = [], scores = [[], [], []], scores_shift = []\<rparr>"

definition one_new_group :: Mixture where
  "one_new_group =
     \<lparr>groups = [\<lparr>counts = SparseCounter_clear\<rparr>], scores = [[0], [0], [0]], scores_shift = [0]\<rparr>"

definition one_group_after_add :: Mixture where
  "one_group_after_add =
     \<lparr>groups = [\<lparr>counts = \<lparr>entries = [(0, 1)], total = 1\<rparr>\<rparr>],
      scores = [[ln (4 / 3)], [0], [0]], scores_shift = [ln 2]\<rparr>"


text \<open>A stand-in for \<^verbatim>\<open>sample_dirichlet\<close> that draws nothing: it normalises the buffer.\<close>

definition example_dirichlet :: "unit \<Rightarrow> real list \<Rightarrow> real list \<times> unit" where
  "example_dirichlet rng ps = (map (\<lambda>p. p / sum_list ps) ps, rng)"

text \<open>
  A group that holds the sentinel \<^verbatim>\<open>OTHER\<close> once, and the mixture that \<^verbatim>\<open>init\<close> builds from it on
  \<open>example_shared\<close>.
\<close>

definition other_group :: Group where
  "other_group = \<lparr>counts = \<lparr>entries = [(OTHER, 1)], total = 1\<rparr>\<rparr>"

definition other_mixture :: Mixture where
  "other_mixture =
     \<lparr>groups = [other_group], scores = [[ln (1 / 3)], [ln (1 / 3)], [ln (1 / 3)]],
      scores_shift = [ln 2]\<rparr>"

section \<open>The counter\<close>

lemma get_count_add:
  "get_count (snd (SparseCounter_add c k)) k' =
     (if k' = k then get_count c k + 1 else get_count c k')"
  by (simp add: SparseCounter_add_def get_count_def Let_def update_conv')

lemma get_total_add: "get_total (snd (SparseCounter_add c k)) = get_total c + 1"
  by (simp add: SparseCounter_add_def get_total_def Let_def)

lemma fst_SparseCounter_add: "fst (SparseCounter_add c k) = get_count c k + 1"
  by (simp add: SparseCounter_add_def Let_def)

lemma SparseCounter_remove_ok:
  assumes "get_count c k \<noteq> 0"
  shows "\<exists>c'. SparseCounter_remove c k = Inr (get_count c k - 1, c')
            \<and> get_total c' = get_total c - 1
            \<and> (\<forall>k'. get_count c' k' = (if k' = k then get_count c k - 1 else get_count c k'))"
proof -
  obtain n where n: "map_of (entries c) k = Some n" "n \<noteq> 0" "get_count c k = n"
    using assms by (auto simp: get_count_def split: option.splits)
  show ?thesis
    using n by (auto simp: SparseCounter_remove_def get_count_def get_total_def Let_def
        update_conv' delete_conv')
qed

lemma items_keys: "map fst (SparseCounter_items c) = sort (remdups (map fst (entries c)))"
  by (simp add: SparseCounter_items_def comp_def)

lemma items_distinct: "distinct (map fst (SparseCounter_items c))"
  by (simp add: items_keys)

lemma items_set: "fst ` set (SparseCounter_items c) = fst ` set (entries c)"
  using arg_cong [OF items_keys, of set c] by simp

lemma items_count:
  "(case map_of (SparseCounter_items c) k of None \<Rightarrow> 0 | Some n \<Rightarrow> n) = get_count c k"
proof (cases "k \<in> fst ` set (entries c)")
  case True
  then have "map_of (SparseCounter_items c) k = Some (get_count c k)"
    by (simp add: SparseCounter_items_def map_of_map_restrict)
  then show ?thesis by simp
next
  case False
  then have "map_of (SparseCounter_items c) k = None" "map_of (entries c) k = None"
    by (simp_all add: SparseCounter_items_def map_of_map_restrict map_of_eq_None_iff)
  then show ?thesis by (simp add: get_count_def)
qed

lemma items_in_range:
  assumes "list_all (\<lambda>(k, n). unat k < sz) (entries c)"
  shows "\<forall>k \<in> fst ` set (SparseCounter_items c). unat k < sz"
  using assms unfolding items_set by (auto simp: list_all_iff)

section \<open>Group\<close>

text \<open>
  C7, as stated: \<^verbatim>\<open>Group::add_value\<close> returns the new count of the value. It does not: on the
  empty group and the value 0 the count becomes 1 and the call returns nothing.
\<close>

theorem Group_add_value_returns_nothing:
  "fst (Group_add_value \<lparr>counts = SparseCounter_clear\<rparr> example_shared 0 ())
     \<noteq> Some (get_count (counts (fst (snd
          (Group_add_value \<lparr>counts = SparseCounter_clear\<rparr> example_shared 0 ())))) 0)
   \<and> get_count (counts (fst (snd
          (Group_add_value \<lparr>counts = SparseCounter_clear\<rparr> example_shared 0 ())))) 0 = 1"
  by (simp add: Group_add_value_def SparseCounter_add_def SparseCounter_clear_def
      get_count_def Let_def)

text \<open>
  C7, amended: for every group and every value \<open>v\<close>, \<^verbatim>\<open>Group::add_value\<close> adds one to the
  count of \<open>v\<close> and one to the total (both are 32-bit unsigned numbers), leaves the
  generator alone and returns nothing; the new count of \<open>v\<close> is what the counter's own
  \<^verbatim>\<open>add\<close> returns.
\<close>

theorem Group_add_value_increments:
  "case Group_add_value g sh v rng of
     (ret, g', rng') \<Rightarrow>
        ret = None \<and> rng' = rng
      \<and> get_count (counts g') v = get_count (counts g) v + 1
      \<and> get_total (counts g') = get_total (counts g) + 1
      \<and> fst (SparseCounter_add (counts g) v) = get_count (counts g') v"
  by (simp add: Group_add_value_def split: prod.split)
     (metis get_count_add get_total_add fst_SparseCounter_add snd_conv fst_conv)

section \<open>score_group\<close>


section \<open>Scoring and the generator\<close>

text \<open>
  C10: \<^verbatim>\<open>Scorer::init\<close>, \<^verbatim>\<open>Scorer::eval\<close>, \<^verbatim>\<open>Mixture::score_value\<close>, the free \<^verbatim>\<open>score_value\<close> and
  \<^verbatim>\<open>score_group\<close> give the same result (or the same error) from any two generator states
  \<open>r1\<close> and \<open>r2\<close>, and the generator state they leave is the one they were given.
\<close>

theorem scoring_ignores_rng:
  "map_sum id fst (Scorer_init s sh g r1) = map_sum id fst (Scorer_init s sh g r2)
   \<and> map_sum id snd (Scorer_init s sh g r1) = map_sum id (\<lambda>_. r1) (Scorer_init s sh g r1)
   \<and> map_sum id fst (Scorer_eval s sh v r1) = map_sum id fst (Scorer_eval s sh v r2)
   \<and> map_sum id snd (Scorer_eval s sh v r1) = map_sum id (\<lambda>_. r1) (Scorer_eval s sh v r1)
   \<and> map_sum id fst (Mixture_score_value m lvl sh v accum r1)
       = map_sum id fst (Mixture_score_value m lvl sh v accum r2)
   \<and> map_sum id snd (Mixture_score_value m lvl sh v accum r1)
       = map_sum id (\<lambda>_. r1) (Mixture_score_value m lvl sh v accum r1)
   \<and> map_sum id fst (score_value sh g v r1) = map_sum id fst (score_value sh g v r2)
   \<and> map_sum id snd (score_value sh g v r1) = map_sum id (\<lambda>_. r1) (score_value sh g v r1)
   \<and> map_sum id fst (score_group fast_lgamma sh g r1)
       = map_sum id fst (score_group fast_lgamma sh g r2)
   \<and> map_sum id snd (score_group fast_lgamma sh g r1)
       = map_sum id (\<lambda>_. r1) (score_group fast_lgamma sh g r1)"
  by (simp add: Scorer_init_def Scorer_eval_def Mixture_score_value_def score_value_def
      score_group_def Let_def split: sum.split)

section \<open>Mixture: sizes and loops\<close>

lemma unat_dim_le: "unat (dim sh) \<le> length (betas sh)"
  by (simp add: dim_def unat_of_nat)

lemma less_dim_unat: "v < dim sh \<Longrightarrow> unat v < unat (dim sh)"
  by (simp add: word_less_nat_alt)

lemma less_dim_betas: "v < dim sh \<Longrightarrow> unat v < length (betas sh)"
  using less_dim_unat [of v sh] unat_dim_le [of sh] by simp

lemma sizes_ok_row:
  "Mixture_sizes_ok sh m \<Longrightarrow> i < length (scores m) \<Longrightarrow> length (scores m ! i) = length (groups m)"
  by (simp add: Mixture_sizes_ok_def list_all_length)

lemma for_values_append:
  "for_values f (xs @ ys) sc =
     (case for_values f xs sc of Inl e \<Rightarrow> Inl e | Inr sc' \<Rightarrow> for_values f ys sc')"
  by (induction xs arbitrary: sc) (simp_all split: sum.split)

lemma for_values_upt:
  assumes "n \<le> length sc" and "\<And>v. v < n \<Longrightarrow> f v (sc ! v) = Inr (h v (sc ! v))"
  shows "for_values f [0..<n] sc = Inr (map (\<lambda>v. h v (sc ! v)) [0..<n] @ drop n sc)"
  using assms
proof (induction n)
  case 0
  then show ?case by simp
next
  case (Suc n)
  let ?sc' = "map (\<lambda>v. h v (sc ! v)) [0..<n] @ drop n sc"
  have prev: "for_values f [0..<n] sc = Inr ?sc'"
    using Suc by simp
  have n: "n < length sc" using Suc.prems(1) by simp
  have at: "?sc' ! n = sc ! n"
    using n by (simp add: nth_append)
  have upd: "?sc'[n := x] = map (\<lambda>v. h v (sc ! v)) [0..<n] @ x # drop (Suc n) sc" for x
    using n by (simp add: list_update_append Cons_nth_drop_Suc [symmetric])
  have "for_values f [0..<Suc n] sc = for_values f [n] ?sc'"
    by (simp add: for_values_append prev del: for_values.simps)
  also have "\<dots> = Inr (?sc'[n := h n (sc ! n)])"
    using n Suc.prems(2) [of n] by (simp add: at del: upt_Suc)
  finally show ?case
    by (simp add: upd)
qed

lemma for_values_all:
  assumes "\<And>v. v < length sc \<Longrightarrow> f v (sc ! v) = Inr (h (sc ! v))"
  shows "for_values f [0..<length sc] sc = Inr (map h sc)"
proof -
  have "for_values f [0..<length sc] sc
          = Inr (map (\<lambda>v. (\<lambda>_. h) v (sc ! v)) [0..<length sc] @ drop (length sc) sc)"
  proof (rule for_values_upt [where h = "\<lambda>_. h"])
    show "length sc \<le> length sc" by simp
  next
    fix v assume "v < length sc"
    then show "f v (sc ! v) = Inr (h (sc ! v))" by (rule assms)
  qed
  moreover have "map (\<lambda>v. h (sc ! v)) [0..<length sc] = map h sc"
    by (rule nth_equalityI) simp_all
  ultimately show ?thesis by simp
qed


lemma resize_shrink: "length xs = Suc n \<Longrightarrow> resize n x xs = butlast xs"
  by (simp add: resize_def butlast_conv_take)

lemma resize_grow: "resize (length xs + 1) x xs = xs @ [x]"
  by (simp add: resize_def)

lemma example_sizes_ok: "Mixture_sizes_ok example_shared example_mixture"
  by (simp add: Mixture_sizes_ok_def example_shared_def example_mixture_def dim_def)

section \<open>Mixture: removing a group\<close>

lemma Mixture_remove_group_ok:
  assumes gid: "groupid < length (groups m)" and sizes: "Mixture_sizes_ok sh m"
  shows "Mixture_remove_group m lvl sh groupid =
     Inr (m\<lparr>groups := butlast ((groups m)[groupid := last (groups m)]),
            scores_shift := butlast ((scores_shift m)[groupid := last (scores_shift m)]),
            scores := map (\<lambda>vscores. butlast (vscores[groupid := last vscores])) (scores m)\<rparr>)"
proof -
  define gc where "gc = length (groups m) - 1"
  define h :: "real list \<Rightarrow> real list" where "h = (\<lambda>vscores. vscores[groupid := last vscores])"
  have len: "length (groups m) = Suc gc" and le: "groupid \<le> gc"
    using gid by (simp_all add: gc_def)
  have rows: "length (scores m ! v) = Suc gc" if "v < length (scores m)" for v
    using sizes_ok_row [OF sizes that] len by simp
  have n: "unat (dim sh) = length (scores m)" and shift: "length (scores_shift m) = Suc gc"
    using sizes len by (simp_all add: Mixture_sizes_ok_def)
  have move: "for_values
        (\<lambda>v vscores. if \<not> groupid < length vscores then Inl Out_of_bounds
                      else Inr (vscores[groupid := last vscores]))
        [0..<length (scores m)] (scores m) = Inr (map h (scores m))"
    by (rule for_values_all) (use le in \<open>simp add: rows h_def less_Suc_eq_le\<close>)
  have cut: "map (resize gc 0) xs = map butlast xs" if "\<forall>x \<in> set xs. length x = Suc gc"
    for xs :: "real list list"
    using that by (simp add: resize_shrink)
  have shrink0: "for_values (\<lambda>v row. Inr (resize gc 0 row)) [0..<length xs] xs
          = Inr (map (resize gc 0) xs)" for xs :: "real list list"
    by (rule for_values_all) simp
  have all_rows: "\<forall>x \<in> set (scores m). length x = Suc gc"
    using rows by (auto simp: in_set_conv_nth)
  show ?thesis
  proof (cases "groupid = gc")
    case True
    have same: "xs[gc := last xs] = xs" if "length xs = Suc gc" for xs :: "'a list"
    proof -
      have "xs \<noteq> []" using that by auto
      then have "last xs = xs ! gc" using that by (simp add: last_conv_nth)
      then show ?thesis by simp
    qed
    have id: "map (\<lambda>vscores. butlast (vscores[gc := last vscores])) (scores m)
          = map butlast (scores m)"
      using all_rows by (simp add: same)
    have run: "Mixture_remove_group m lvl sh gc =
        Inr (m\<lparr>groups := butlast (groups m), scores_shift := butlast (scores_shift m),
               scores := map butlast (scores m)\<rparr>)"
      using len shift shrink0 [of "scores m"] cut [OF all_rows]
      by (simp add: Mixture_remove_group_def DIST_ASSERT_lvl_def n gc_def [symmetric]
          resize_shrink)
    show ?thesis
      unfolding True run id same [OF len] same [OF shift] ..
  next
    case False
    then have lt: "groupid < gc" using le by simp
    have all_h: "\<forall>x \<in> set (map h (scores m)). length x = Suc gc"
      using all_rows by (simp add: h_def)
    have shrink: "for_values (\<lambda>v row. Inr (resize gc 0 row))
        [0..<length (scores m)] (map h (scores m))
          = Inr (map (\<lambda>vscores. butlast (h vscores)) (scores m))"
      using shrink0 [of "map h (scores m)"] cut [OF all_h] by (simp add: comp_def)
    show ?thesis
      using gid lt len shift move shrink
      by (simp add: Mixture_remove_group_def DIST_ASSERT_lvl_def n gc_def [symmetric]
          resize_shrink butlast_list_update h_def)
  qed
qed

text \<open>
  C4: in a mixture whose cache sizes agree with its groups, \<^verbatim>\<open>remove_group(groupid)\<close> for a
  \<open>groupid\<close> that is in range and not the last index succeeds; slot \<open>groupid\<close> of the groups,
  of \<^verbatim>\<open>scores_shift\<close> and of every row \<^verbatim>\<open>scores[v]\<close> then holds what the last slot held, and
  the group array, \<^verbatim>\<open>scores_shift\<close> and every row are one shorter. The group that was last
  is now found at index \<open>groupid\<close>: indices do not identify groups across a removal.
\<close>

theorem Mixture_remove_group_swaps:
  assumes gid: "groupid < length (groups m)"
    and not_last: "groupid \<noteq> length (groups m) - 1"
    and sizes: "Mixture_sizes_ok sh m"
  shows "\<exists>m'. Mixture_remove_group m lvl sh groupid = Inr m'
           \<and> groups m' = butlast ((groups m)[groupid := last (groups m)])
           \<and> scores_shift m' = butlast ((scores_shift m)[groupid := last (scores_shift m)])
           \<and> scores m' = map (\<lambda>vscores. butlast (vscores[groupid := last vscores])) (scores m)
           \<and> length (groups m') = length (groups m) - 1
           \<and> length (scores_shift m') = length (scores_shift m) - 1
           \<and> length (scores m') = length (scores m)
           \<and> groups m' ! groupid = last (groups m)
           \<and> scores_shift m' ! groupid = last (scores_shift m)
           \<and> (\<forall>v < length (scores m).
                 length (scores m' ! v) = length (scores m ! v) - 1
                 \<and> scores m' ! v ! groupid = last (scores m ! v))"
proof -
  have lt: "groupid < length (groups m) - 1"
    using gid not_last by simp
  have shift: "length (scores_shift m) = length (groups m)"
    using sizes by (simp add: Mixture_sizes_ok_def)
  have rows: "length (scores m ! v) = length (groups m)" if "v < length (scores m)" for v
    using sizes_ok_row [OF sizes that] .
  show ?thesis
    using lt shift rows
    by (simp add: Mixture_remove_group_ok [OF gid sizes] nth_butlast)
qed

theorem Mixture_remove_group_swaps_witness:
  "0 < length (groups example_mixture) \<and> 0 \<noteq> length (groups example_mixture) - 1
   \<and> Mixture_sizes_ok example_shared example_mixture
   \<and> (\<exists>m'. Mixture_remove_group example_mixture 1 example_shared 0 = Inr m'
          \<and> groups m' = [example_group]
          \<and> scores_shift m' = [ln 3]
          \<and> scores m' = [[ln (1 / 3)], [ln (7 / 3)], [ln (1 / 3)]])"
  using Mixture_remove_group_swaps [of 0 example_mixture example_shared 1] example_sizes_ok
  by (simp add: example_mixture_def) blast


section \<open>Mixture: adding and removing a value\<close>

lemma Mixture_add_value_ok:
  assumes "groupid < length (groups m)" and "v < dim sh" and "Mixture_sizes_ok sh m"
  shows "Mixture_add_value m lvl sh groupid v rng =
     Inr (m\<lparr>groups := (groups m)[groupid :=
                (groups m ! groupid)\<lparr>counts := snd (SparseCounter_add (counts (groups m ! groupid)) v)\<rparr>],
            scores := (scores m)[unat v := (scores m ! unat v)[groupid :=
                cache_cell sh ((groups m ! groupid)\<lparr>counts :=
                   snd (SparseCounter_add (counts (groups m ! groupid)) v)\<rparr>) v]],
            scores_shift := (scores_shift m)[groupid :=
                cache_shift sh ((groups m ! groupid)\<lparr>counts :=
                   snd (SparseCounter_add (counts (groups m ! groupid)) v)\<rparr>)]\<rparr>, rng)"
proof -
  have v: "unat v < length (scores m)" "unat v < length (betas sh)"
    using assms less_dim_unat less_dim_betas by (simp_all add: Mixture_sizes_ok_def)
  have row: "length (scores m ! unat v) = length (groups m)"
    using sizes_ok_row [OF assms(3) v(1)] .
  have shift: "length (scores_shift m) = length (groups m)"
    using assms(3) by (simp add: Mixture_sizes_ok_def)
  show ?thesis
    using assms(1) v row shift
    by (simp add: Mixture_add_value_def DIST_ASSERT_lvl_def cache_cell_def cache_shift_def
        get_count_add fst_SparseCounter_add [symmetric] split: prod.split)
qed

lemma Mixture_remove_value_ok:
  assumes "groupid < length (groups m)" and "v < dim sh" and "Mixture_sizes_ok sh m"
    and "get_count (counts (groups m ! groupid)) v \<noteq> 0"
  shows "\<exists>c'. get_total c' = get_total (counts (groups m ! groupid)) - 1
     \<and> (\<forall>k. get_count c' k = (if k = v then get_count (counts (groups m ! groupid)) v - 1
                                  else get_count (counts (groups m ! groupid)) k))
     \<and> Mixture_remove_value m lvl sh groupid v rng =
     Inr (m\<lparr>groups := (groups m)[groupid := (groups m ! groupid)\<lparr>counts := c'\<rparr>],
            scores := (scores m)[unat v := (scores m ! unat v)[groupid :=
                cache_cell sh ((groups m ! groupid)\<lparr>counts := c'\<rparr>) v]],
            scores_shift := (scores_shift m)[groupid :=
                cache_shift sh ((groups m ! groupid)\<lparr>counts := c'\<rparr>)]\<rparr>, rng)"
proof -
  have v: "unat v < length (scores m)" "unat v < length (betas sh)"
    using assms less_dim_unat less_dim_betas by (simp_all add: Mixture_sizes_ok_def)
  have row: "length (scores m ! unat v) = length (groups m)"
    using sizes_ok_row [OF assms(3) v(1)] .
  have shift: "length (scores_shift m) = length (groups m)"
    using assms(3) by (simp add: Mixture_sizes_ok_def)
  obtain c' where c': "SparseCounter_remove (counts (groups m ! groupid)) v
        = Inr (get_count (counts (groups m ! groupid)) v - 1, c')"
      "get_total c' = get_total (counts (groups m ! groupid)) - 1"
      "\<forall>k. get_count c' k = (if k = v then get_count (counts (groups m ! groupid)) v - 1
                                  else get_count (counts (groups m ! groupid)) k)"
    using SparseCounter_remove_ok [OF assms(4)] by blast
  have "Mixture_remove_value m lvl sh groupid v rng =
     Inr (m\<lparr>groups := (groups m)[groupid := (groups m ! groupid)\<lparr>counts := c'\<rparr>],
            scores := (scores m)[unat v := (scores m ! unat v)[groupid :=
                cache_cell sh ((groups m ! groupid)\<lparr>counts := c'\<rparr>) v]],
            scores_shift := (scores_shift m)[groupid :=
                cache_shift sh ((groups m ! groupid)\<lparr>counts := c'\<rparr>)]\<rparr>, rng)"
    using assms(1) v row shift c'
    by (simp add: Mixture_remove_value_def DIST_ASSERT_lvl_def cache_cell_def cache_shift_def)
  with c'(2,3) show ?thesis by blast
qed

lemma sizes_ok_update:
  assumes "Mixture_sizes_ok sh m"
  shows "Mixture_sizes_ok sh
           (m\<lparr>groups := (groups m)[g := x],
              scores := (scores m)[i := (scores m ! i)[g := y]],
              scores_shift := (scores_shift m)[g := z]\<rparr>)"
proof (cases "i < length (scores m)")
  case True
  with assms show ?thesis
    by (auto simp: Mixture_sizes_ok_def list_all_length nth_list_update)
next
  case False
  with assms show ?thesis
    by (simp add: Mixture_sizes_ok_def list_all_length)
qed

lemma nested_update_frame:
  "(v', g') \<noteq> (i, j) \<Longrightarrow> xs[i := (xs ! i)[j := a]] ! v' ! g' = xs ! v' ! g'"
  by (cases "v' = i"; cases "i < length xs") (auto simp: nth_list_update list_update_beyond)

lemma example_add_value:
  "Mixture_add_value example_mixture 1 example_shared 1 1 () =
     Inr (\<lparr>groups = [\<lparr>counts = SparseCounter_clear\<rparr>,
                       \<lparr>counts = \<lparr>entries = [(1, 3)], total = 3\<rparr>\<rparr>],
           scores = [[ln (1 / 3), ln (1 / 3)], [ln (1 / 3), ln (10 / 3)], [ln (1 / 3), ln (1 / 3)]],
           scores_shift = [ln 1, ln 4]\<rparr>, ())"
  by (simp add: Mixture_add_value_def DIST_ASSERT_lvl_def example_mixture_def example_group_def
      example_shared_def SparseCounter_add_def get_count_def get_total_def fast_log_def)

lemma example_remove_value:
  "Mixture_remove_value example_mixture 1 example_shared 1 1 () =
     Inr (\<lparr>groups = [\<lparr>counts = SparseCounter_clear\<rparr>,
                       \<lparr>counts = \<lparr>entries = [(1, 1)], total = 1\<rparr>\<rparr>],
           scores = [[ln (1 / 3), ln (1 / 3)], [ln (1 / 3), ln (4 / 3)], [ln (1 / 3), ln (1 / 3)]],
           scores_shift = [ln 1, ln 2]\<rparr>, ())"
  by (simp add: Mixture_remove_value_def DIST_ASSERT_lvl_def example_mixture_def example_group_def
      example_shared_def SparseCounter_remove_def get_total_def fast_log_def)

text \<open>
  C5: whenever \<^verbatim>\<open>Mixture::add_value(groupid, v)\<close> or \<^verbatim>\<open>Mixture::remove_value(groupid, v)\<close>
  returns, the caches and the groups after the call are those before it with at most the
  cell \<^verbatim>\<open>scores[v][groupid]\<close>, the entry \<^verbatim>\<open>scores_shift[groupid]\<close> and the group \<open>groupid\<close>
  replaced: every other cell, every other shift entry and every other group is unchanged.
\<close>

theorem Mixture_value_update_frame:
  "(Mixture_add_value m lvl sh groupid v rng = Inr (ma, ra) \<longrightarrow>
       scores ma = (scores m)[unat v := (scores m ! unat v)[groupid := scores ma ! unat v ! groupid]]
     \<and> scores_shift ma = (scores_shift m)[groupid := scores_shift ma ! groupid]
     \<and> groups ma = (groups m)[groupid := groups ma ! groupid]
     \<and> (\<forall>v' g'. (v', g') \<noteq> (unat v, groupid) \<longrightarrow> scores ma ! v' ! g' = scores m ! v' ! g')
     \<and> (\<forall>g'. g' \<noteq> groupid \<longrightarrow>
           scores_shift ma ! g' = scores_shift m ! g' \<and> groups ma ! g' = groups m ! g'))
   \<and> (Mixture_remove_value m lvl sh groupid v rng = Inr (mr, rr) \<longrightarrow>
       scores mr = (scores m)[unat v := (scores m ! unat v)[groupid := scores mr ! unat v ! groupid]]
     \<and> scores_shift mr = (scores_shift m)[groupid := scores_shift mr ! groupid]
     \<and> groups mr = (groups m)[groupid := groups mr ! groupid]
     \<and> (\<forall>v' g'. (v', g') \<noteq> (unat v, groupid) \<longrightarrow> scores mr ! v' ! g' = scores m ! v' ! g')
     \<and> (\<forall>g'. g' \<noteq> groupid \<longrightarrow>
           scores_shift mr ! g' = scores_shift m ! g' \<and> groups mr ! g' = groups m ! g'))"
proof (intro conjI impI)
  assume "Mixture_add_value m lvl sh groupid v rng = Inr (ma, ra)"
  then obtain a b c where ma: "ma = m\<lparr>groups := (groups m)[groupid := a],
        scores := (scores m)[unat v := (scores m ! unat v)[groupid := b]],
        scores_shift := (scores_shift m)[groupid := c]\<rparr>"
    and rng: "groupid < length (groups m)" "unat v < length (scores m)"
      "groupid < length (scores m ! unat v)" "groupid < length (scores_shift m)"
    by (auto simp: Mixture_add_value_def Let_def split: if_splits prod.splits)
  show "scores ma = (scores m)[unat v := (scores m ! unat v)[groupid := scores ma ! unat v ! groupid]]"
    "scores_shift ma = (scores_shift m)[groupid := scores_shift ma ! groupid]"
    "groups ma = (groups m)[groupid := groups ma ! groupid]"
    "\<forall>v' g'. (v', g') \<noteq> (unat v, groupid) \<longrightarrow> scores ma ! v' ! g' = scores m ! v' ! g'"
    "\<forall>g'. g' \<noteq> groupid \<longrightarrow>
           scores_shift ma ! g' = scores_shift m ! g' \<and> groups ma ! g' = groups m ! g'"
    using rng by (simp_all add: ma nested_update_frame del: prod.inject)
next
  assume "Mixture_remove_value m lvl sh groupid v rng = Inr (mr, rr)"
  then obtain a b c where mr: "mr = m\<lparr>groups := (groups m)[groupid := a],
        scores := (scores m)[unat v := (scores m ! unat v)[groupid := b]],
        scores_shift := (scores_shift m)[groupid := c]\<rparr>"
    and rng: "groupid < length (groups m)" "unat v < length (scores m)"
      "groupid < length (scores m ! unat v)" "groupid < length (scores_shift m)"
    by (auto simp: Mixture_remove_value_def Let_def split: if_splits prod.splits sum.splits)
  show "scores mr = (scores m)[unat v := (scores m ! unat v)[groupid := scores mr ! unat v ! groupid]]"
    "scores_shift mr = (scores_shift m)[groupid := scores_shift mr ! groupid]"
    "groups mr = (groups m)[groupid := groups mr ! groupid]"
    "\<forall>v' g'. (v', g') \<noteq> (unat v, groupid) \<longrightarrow> scores mr ! v' ! g' = scores m ! v' ! g'"
    "\<forall>g'. g' \<noteq> groupid \<longrightarrow>
           scores_shift mr ! g' = scores_shift m ! g' \<and> groups mr ! g' = groups m ! g'"
    using rng by (simp_all add: mr nested_update_frame del: prod.inject)
qed

theorem Mixture_value_update_frame_witness:
  "\<exists>ma mr. Mixture_add_value example_mixture 1 example_shared 1 1 () = Inr (ma, ())
      \<and> Mixture_remove_value example_mixture 1 example_shared 1 1 () = Inr (mr, ())
      \<and> scores ma ! 1 ! 0 = scores example_mixture ! 1 ! 0
      \<and> scores ma ! 0 ! 1 = scores example_mixture ! 0 ! 1
      \<and> scores_shift ma ! 0 = scores_shift example_mixture ! 0
      \<and> groups ma ! 0 = groups example_mixture ! 0
      \<and> scores mr ! 1 ! 0 = scores example_mixture ! 1 ! 0
      \<and> scores mr ! 0 ! 1 = scores example_mixture ! 0 ! 1
      \<and> scores_shift mr ! 0 = scores_shift example_mixture ! 0
      \<and> groups mr ! 0 = groups example_mixture ! 0"
proof -
  obtain ma mr
    where a: "Mixture_add_value example_mixture 1 example_shared 1 1 () = Inr (ma, ())"
      and r: "Mixture_remove_value example_mixture 1 example_shared 1 1 () = Inr (mr, ())"
    using example_add_value example_remove_value by blast
  from Mixture_value_update_frame [of example_mixture 1 example_shared 1 1 "()" ma "()" mr "()"]
    a r
  show ?thesis by simp
qed

text \<open>The run from no groups on \<open>example_shared\<close>, step by step.\<close>

lemma upt_0_3: "[0..<3] = [0, 1, 2]"
  by (simp add: upt_rec)

lemma replicate_3: "replicate 3 x = [x, x, x]"
  by (simp add: numeral_3_eq_3)

lemma dim_example: "unat (dim example_shared) = 3"
  by (simp add: dim_def example_shared_def)

lemma init_no_groups:
  "Mixture_init \<lparr>groups = [], scores = [], scores_shift = []\<rparr> example_shared () = Inr (no_groups, ())"
  by (simp add: Mixture_init_def dim_example upt_0_3 replicate_3 resize_def vector_log_def
      no_groups_def)

lemma add_group_no_groups:
  "Mixture_add_group no_groups example_shared () = Inr (one_new_group, ())"
  by (simp add: Mixture_add_group_def dim_example upt_0_3 resize_def Group_init_def no_groups_def
      one_new_group_def)

lemma add_value_one_new_group:
  "Mixture_add_value one_new_group 1 example_shared 0 0 () = Inr (one_group_after_add, ())"
  by (simp add: Mixture_add_value_def DIST_ASSERT_lvl_def one_new_group_def one_group_after_add_def
      example_shared_def SparseCounter_add_def SparseCounter_clear_def get_count_def get_total_def
      fast_log_def)






section \<open>Mixture: batched scoring\<close>

lemma Mixture_score_value_ok:
  assumes "v < dim sh" and "Mixture_sizes_ok sh m" and "length accum = length (groups m)"
  shows "Mixture_score_value m lvl sh v accum rng =
      Inr (map (\<lambda>i. accum ! i + (scores m ! unat v ! i - scores_shift m ! i))
             [0..<length (groups m)], rng)"
proof -
  have v: "unat v < length (scores m)" "unat v < length (betas sh)"
    using assms less_dim_unat less_dim_betas by (simp_all add: Mixture_sizes_ok_def)
  have row: "length (scores m ! unat v) = length (groups m)"
    using sizes_ok_row [OF assms(2) v(1)] .
  have shift: "length (scores_shift m) = length (groups m)"
    using assms(2) by (simp add: Mixture_sizes_ok_def)
  show ?thesis
    using v row shift assms(3)
    by (simp add: Mixture_score_value_def DIST_ASSERT_lvl_def vector_add_subtract_def)
qed

text \<open>
  C6: in a mixture whose cache sizes agree with its groups, for a value \<open>v < dim\<close> and a
  buffer \<open>accum\<close> with one entry per group, \<^verbatim>\<open>Mixture::score_value\<close> succeeds and entry \<open>g\<close> of
  the buffer it leaves is the former entry plus \<^verbatim>\<open>scores[v][g] - scores_shift[g]\<close>. The method
  is \<^verbatim>\<open>const\<close>: the function has no mixture to return, and the generator is unchanged.
\<close>

theorem Mixture_score_value_accumulates:
  assumes "v < dim sh" and "Mixture_sizes_ok sh m" and "length accum = length (groups m)"
  shows "\<exists>accum'. Mixture_score_value m lvl sh v accum rng = Inr (accum', rng)
           \<and> length accum' = length accum
           \<and> (\<forall>g < length (groups m).
                 accum' ! g = accum ! g + (scores m ! unat v ! g - scores_shift m ! g))"
  using Mixture_score_value_ok [OF assms, of lvl rng] assms(3) by simp

theorem Mixture_score_value_accumulates_witness:
  "1 < dim example_shared \<and> Mixture_sizes_ok example_shared example_mixture
   \<and> length [10, 20 :: real] = length (groups example_mixture)
   \<and> (\<exists>accum'. Mixture_score_value example_mixture 2 example_shared 1 [10, 20] ()
                  = Inr (accum', ())
          \<and> accum' ! 0 = 10 + (ln (1 / 3) - ln 1)
          \<and> accum' ! 1 = 20 + (ln (7 / 3) - ln 3))"
proof -
  have h: "1 < dim example_shared" "length [10, 20 :: real] = length (groups example_mixture)"
    by (simp_all add: dim_def example_shared_def example_mixture_def)
  from Mixture_score_value_accumulates [OF h(1) example_sizes_ok h(2), of 2 "()"] h
    example_sizes_ok
  show ?thesis by (auto simp: example_mixture_def)
qed

section \<open>Mixture: cache equivalence along the other operations\<close>

text \<open>
  \<^verbatim>\<open>Mixture::init\<close> always succeeds and leaves a cache equivalent to the groups, whatever the
  caches held before; \<^verbatim>\<open>add_value\<close>, \<^verbatim>\<open>remove_value\<close> and \<^verbatim>\<open>remove_group\<close> keep an equivalent
  cache equivalent. \<^verbatim>\<open>add_group\<close> appends an empty group and a zero to \<^verbatim>\<open>scores_shift\<close> and to
  every row of \<^verbatim>\<open>scores\<close>, where the closed forms of an empty group are \<open>ln alpha\<close> and
  \<open>ln (alpha * betas[v])\<close>.
\<close>

lemma cache_equivalent_iff:
  "cache_equivalent sh m \<longleftrightarrow>
     Mixture_sizes_ok sh m
     \<and> (\<forall>g < length (groups m). scores_shift m ! g = cache_shift sh (groups m ! g)
           \<and> (\<forall>i < unat (dim sh). scores m ! i ! g = cache_cell sh (groups m ! g) (of_nat i)))"
  by (auto simp: cache_equivalent_def list_all_iff)

lemma unat_of_nat_index: "i < unat (d :: Value) \<Longrightarrow> unat (of_nat i :: Value) = i"
proof -
  assume "i < unat d"
  moreover have "unat d < 2 ^ 32" using unsigned_less [of d] by simp
  ultimately show ?thesis by (simp add: unat_of_nat)
qed

lemma cache_cell_cong:
  "get_count (counts g1) k = get_count (counts g2) k \<Longrightarrow> cache_cell sh g1 k = cache_cell sh g2 k"
  by (simp add: cache_cell_def)

lemma cache_equivalent_update:
  assumes cache: "cache_equivalent sh m" and gid: "groupid < length (groups m)"
    and v: "v < dim sh"
    and others: "\<forall>k. k \<noteq> v \<longrightarrow> get_count (counts g') k = get_count (counts (groups m ! groupid)) k"
  shows "cache_equivalent sh
           (m\<lparr>groups := (groups m)[groupid := g'],
              scores := (scores m)[unat v := (scores m ! unat v)[groupid := cache_cell sh g' v]],
              scores_shift := (scores_shift m)[groupid := cache_shift sh g']\<rparr>)"
    (is "cache_equivalent sh ?m'")
proof -
  note old = cache [unfolded cache_equivalent_iff]
  have sizes: "Mixture_sizes_ok sh m" using old by simp
  have vlen: "unat v < length (scores m)"
    using v sizes less_dim_unat by (simp add: Mixture_sizes_ok_def)
  have row: "length (scores m ! unat v) = length (groups m)"
    using sizes_ok_row [OF sizes vlen] .
  have shift: "length (scores_shift m) = length (groups m)"
    using sizes by (simp add: Mixture_sizes_ok_def)
  have sizes': "Mixture_sizes_ok sh ?m'"
    by (rule sizes_ok_update [OF sizes])
  have "scores_shift ?m' ! g = cache_shift sh (groups ?m' ! g)
      \<and> (\<forall>i < unat (dim sh). scores ?m' ! i ! g = cache_cell sh (groups ?m' ! g) (of_nat i))"
    if g: "g < length (groups m)" for g
  proof (cases "g = groupid")
    case False
    then show ?thesis
      using old g by (simp add: nested_update_frame)
  next
    case True
    have "scores ?m' ! i ! groupid = cache_cell sh g' (of_nat i)" if i: "i < unat (dim sh)" for i
    proof (cases "i = unat v")
      case True
      then show ?thesis
        using vlen row gid by simp
    next
      case False
      then have "of_nat i \<noteq> v"
        using unat_of_nat_index [OF i] by auto
      then have "cache_cell sh g' (of_nat i) = cache_cell sh (groups m ! groupid) (of_nat i)"
        using others by (intro cache_cell_cong) simp
      then show ?thesis
        using old gid i False by (simp add: nested_update_frame)
    qed
    then show ?thesis
      using True gid shift by simp
  qed
  then show ?thesis
    using sizes' by (simp add: cache_equivalent_iff)
qed

lemma add_value_keeps_cache:
  assumes "groupid < length (groups m)" and "v < dim sh" and "cache_equivalent sh m"
  shows "\<exists>m'. Mixture_add_value m lvl sh groupid v rng = Inr (m', rng) \<and> cache_equivalent sh m'"
proof -
  have sizes: "Mixture_sizes_ok sh m"
    using assms(3) by (simp add: cache_equivalent_iff)
  show ?thesis
    unfolding Mixture_add_value_ok [OF assms(1,2) sizes]
    using cache_equivalent_update [OF assms(3,1,2)] by (simp add: get_count_add)
qed

lemma remove_value_keeps_cache:
  assumes "groupid < length (groups m)" and "v < dim sh" and "cache_equivalent sh m"
    and "get_count (counts (groups m ! groupid)) v \<noteq> 0"
  shows "\<exists>m'. Mixture_remove_value m lvl sh groupid v rng = Inr (m', rng) \<and> cache_equivalent sh m'"
proof -
  have sizes: "Mixture_sizes_ok sh m"
    using assms(3) by (simp add: cache_equivalent_iff)
  obtain c' where c': "\<forall>k. get_count c' k
        = (if k = v then get_count (counts (groups m ! groupid)) v - 1
           else get_count (counts (groups m ! groupid)) k)"
    and run: "Mixture_remove_value m lvl sh groupid v rng =
     Inr (m\<lparr>groups := (groups m)[groupid := (groups m ! groupid)\<lparr>counts := c'\<rparr>],
            scores := (scores m)[unat v := (scores m ! unat v)[groupid :=
                cache_cell sh ((groups m ! groupid)\<lparr>counts := c'\<rparr>) v]],
            scores_shift := (scores_shift m)[groupid :=
                cache_shift sh ((groups m ! groupid)\<lparr>counts := c'\<rparr>)]\<rparr>, rng)"
    using Mixture_remove_value_ok [OF assms(1,2) sizes assms(4), of lvl rng] by blast
  show ?thesis
    unfolding run
    using cache_equivalent_update [OF assms(3,1,2), of "(groups m ! groupid)\<lparr>counts := c'\<rparr>"] c'
    by simp
qed

lemma remove_group_keeps_cache:
  assumes gid: "groupid < length (groups m)" and cache: "cache_equivalent sh m"
  shows "\<exists>m'. Mixture_remove_group m lvl sh groupid = Inr m' \<and> cache_equivalent sh m'"
proof -
  note old = cache [unfolded cache_equivalent_iff]
  have sizes: "Mixture_sizes_ok sh m" using old by simp
  define gc where "gc = length (groups m) - 1"
  have len: "length (groups m) = Suc gc" using gid by (simp add: gc_def)
  have shift: "length (scores_shift m) = Suc gc"
    and n: "length (scores m) = unat (dim sh)"
    using sizes len by (simp_all add: Mixture_sizes_ok_def)
  have rows: "length (scores m ! i) = Suc gc" if "i < unat (dim sh)" for i
    using sizes_ok_row [OF sizes, of i] that n len by simp
  define m' where "m' = m\<lparr>groups := butlast ((groups m)[groupid := last (groups m)]),
            scores_shift := butlast ((scores_shift m)[groupid := last (scores_shift m)]),
            scores := map (\<lambda>vscores. butlast (vscores[groupid := last vscores])) (scores m)\<rparr>"
  have last_g: "last (groups m) = groups m ! gc" and last_s: "last (scores_shift m) = scores_shift m ! gc"
    using len shift by (simp_all add: last_conv_nth flip: length_greater_0_conv)
  have last_r: "last (scores m ! i) = scores m ! i ! gc" if "i < unat (dim sh)" for i
    using rows [OF that] by (simp add: last_conv_nth flip: length_greater_0_conv)
  have sizes': "Mixture_sizes_ok sh m'"
    using sizes len by (auto simp: m'_def Mixture_sizes_ok_def list_all_iff)
  have len': "length (groups m') = gc"
    using len by (simp add: m'_def)
  have cells: "scores_shift m' ! g = cache_shift sh (groups m' ! g)
      \<and> (\<forall>i < unat (dim sh). scores m' ! i ! g = cache_cell sh (groups m' ! g) (of_nat i))"
    if g: "g < gc" for g
  proof -
    have a: "groups m' ! g = (if g = groupid then groups m ! gc else groups m ! g)"
      using g len gid by (simp add: m'_def nth_butlast nth_list_update last_g)
    have b: "scores_shift m' ! g = (if g = groupid then scores_shift m ! gc else scores_shift m ! g)"
      using g shift len gid by (simp add: m'_def nth_butlast nth_list_update last_s)
    have c: "scores m' ! i ! g = (if g = groupid then scores m ! i ! gc else scores m ! i ! g)"
      if "i < unat (dim sh)" for i
      using g rows [OF that] that n len gid
      by (simp add: m'_def nth_butlast nth_list_update last_r)
    show ?thesis
      using old g len by (simp add: a b c)
  qed
  have "cache_equivalent sh m'"
    using sizes' cells len' by (simp add: cache_equivalent_iff)
  then show ?thesis
    by (simp add: Mixture_remove_group_ok [OF gid sizes] m'_def)
qed

lemma length_resize: "length (resize n x xs) = n"
  by (simp add: resize_def)

lemma Mixture_init_groups_append:
  "Mixture_init_groups sh gs (xs @ ys) p =
     (case Mixture_init_groups sh gs xs p of
        Inl e \<Rightarrow> Inl e
      | Inr p' \<Rightarrow> Mixture_init_groups sh gs ys p')"
proof (induction xs arbitrary: p)
  case Nil
  then show ?case by (cases p) simp
next
  case (Cons x xs)
  then show ?case by (cases p) (simp add: Let_def split: sum.split)
qed

lemma Mixture_init_groups_upt:
  assumes "n \<le> length gs" and "n \<le> length shift" and "length sc = unat (dim sh)"
    and "\<forall>v < unat (dim sh). n \<le> length (sc ! v)"
  shows "\<exists>sc' shift'. Mixture_init_groups sh gs [0..<n] (sc, shift) = Inr (sc', shift')
     \<and> length sc' = length sc \<and> length shift' = length shift
     \<and> (\<forall>v < unat (dim sh). length (sc' ! v) = length (sc ! v))
     \<and> (\<forall>g < n. shift' ! g = alpha sh + real (unat (get_total (counts (gs ! g))))
           \<and> (\<forall>v < unat (dim sh). sc' ! v ! g
                 = alpha sh * betas sh ! v
                   + real (unat (get_count (counts (gs ! g)) (of_nat v)))))"
  using assms
proof (induction n)
  case 0
  then show ?case by simp
next
  case (Suc n)
  define d where "d = unat (dim sh)"
  define val where "val = (\<lambda>v. alpha sh * betas sh ! v
      + real (unat (get_count (counts (gs ! n)) (of_nat v))))"
  obtain sc1 shift1 where prev: "Mixture_init_groups sh gs [0..<n] (sc, shift) = Inr (sc1, shift1)"
    and len1: "length sc1 = length sc" "length shift1 = length shift"
    and rows1: "\<forall>v < d. length (sc1 ! v) = length (sc ! v)"
    and done1: "\<forall>g < n. shift1 ! g = alpha sh + real (unat (get_total (counts (gs ! g))))
           \<and> (\<forall>v < d. sc1 ! v ! g
                 = alpha sh * betas sh ! v
                   + real (unat (get_count (counts (gs ! g)) (of_nat v))))"
    using Suc.IH Suc.prems unfolding d_def by (auto simp: Suc_le_eq less_imp_le)
  have d1: "d = length sc1" using len1 Suc.prems(3) by (simp add: d_def)
  have n_row: "n < length (sc1 ! v)" if "v < d" for v
    using rows1 Suc.prems(4) that by (simp add: d_def Suc_le_eq)
  have d_betas: "v < length (betas sh)" if "v < d" for v
    using that unat_dim_le [of sh] by (simp add: d_def)
  let ?f = "\<lambda>v row. if \<not> (n < length row \<and> v < length (betas sh)) then Inl Out_of_bounds
                     else Inr (row[n := alpha sh * betas sh ! v
                              + real (unat (get_count (counts (gs ! n)) (of_nat v)))])"
  have "for_values ?f [0..<d] sc1
      = Inr (map (\<lambda>v. (\<lambda>v row. row[n := val v]) v (sc1 ! v)) [0..<d] @ drop d sc1)"
  proof (rule for_values_upt)
    show "d \<le> length sc1" by (simp add: d1)
  next
    fix v assume "v < d"
    then show "?f v (sc1 ! v) = Inr ((sc1 ! v)[n := val v])"
      using n_row d_betas by (simp add: val_def)
  qed
  then have inner: "for_values ?f [0..<d] sc1 = Inr (map (\<lambda>v. (sc1 ! v)[n := val v]) [0..<d])"
    by (simp add: d1)
  let ?sc2 = "map (\<lambda>v. (sc1 ! v)[n := val v]) [0..<d]"
  let ?shift2 = "shift1[n := alpha sh + real (unat (get_total (counts (gs ! n))))]"
  have step: "Mixture_init_groups sh gs [n] (sc1, shift1) = Inr (?sc2, ?shift2)"
    using Suc.prems(1,2) len1 inner by (simp add: d_def [symmetric] Let_def)
  have run: "Mixture_init_groups sh gs [0..<Suc n] (sc, shift) = Inr (?sc2, ?shift2)"
    using prev step by (simp add: Mixture_init_groups_append del: Mixture_init_groups.simps)
  have cells: "?shift2 ! g = alpha sh + real (unat (get_total (counts (gs ! g))))
           \<and> (\<forall>v < d. ?sc2 ! v ! g
                 = alpha sh * betas sh ! v
                   + real (unat (get_count (counts (gs ! g)) (of_nat v))))"
    if "g < Suc n" for g
  proof (cases "g = n")
    case True
    then show ?thesis
      using n_row Suc.prems(2) len1 by (simp add: val_def)
  next
    case False
    then have "g < n" using that by simp
    then show ?thesis
      using done1 False by simp
  qed
  show ?case
    apply (rule exI [of _ ?sc2], rule exI [of _ ?shift2])
    using run cells len1 rows1 d1 by (simp add: d_def [symmetric])
qed

lemma vector_log_all: "vector_log (length xs) xs = Inr (map ln xs)"
  by (simp add: vector_log_def)

lemma Mixture_init_establishes_cache:
  "\<exists>m'. Mixture_init m sh rng = Inr (m', rng) \<and> groups m' = groups m
         \<and> cache_equivalent sh m'"
proof -
  define d where "d = unat (dim sh)"
  define gc where "gc = length (groups m)"
  let ?shift0 = "resize gc 0 (scores_shift m)"
  let ?sc0 = "resize d [] (scores m)"
  let ?sc1 = "map (resize gc 0) ?sc0"
  have rs: "for_values (\<lambda>v row. Inr (resize gc 0 row)) [0..<d] ?sc0 = Inr ?sc1"
    using for_values_all [of ?sc0 "\<lambda>v row. Inr (resize gc 0 row)" "resize gc 0"]
    by (simp add: length_resize)
  have rows1: "\<forall>v < unat (dim sh). gc \<le> length (?sc1 ! v)"
    by (simp add: length_resize d_def)
  obtain sc2 shift1
    where groups: "Mixture_init_groups sh (groups m) [0..<gc] (?sc1, ?shift0) = Inr (sc2, shift1)"
      and len2: "length sc2 = d" "length shift1 = gc"
      and rows2: "\<forall>v < d. length (sc2 ! v) = gc"
      and cells: "\<forall>g < gc. shift1 ! g = alpha sh + real (unat (get_total (counts (groups m ! g))))
           \<and> (\<forall>v < d. sc2 ! v ! g
                 = alpha sh * betas sh ! v
                   + real (unat (get_count (counts (groups m ! g)) (of_nat v))))"
    using Mixture_init_groups_upt [of gc "groups m" ?shift0 ?sc1 sh] rows1
    by (auto simp: length_resize gc_def d_def)
  have logs: "for_values (\<lambda>v row. vector_log gc row) [0..<d] sc2 = Inr (map (map ln) sc2)"
    using for_values_all [of sc2 "\<lambda>v row. vector_log gc row" "map ln"] rows2 len2
    by (simp add: vector_log_def)
  have log1: "vector_log gc shift1 = Inr (map ln shift1)"
    using len2 by (simp add: vector_log_def)
  define m' where "m' = m\<lparr>scores := map (map ln) sc2, scores_shift := map ln shift1\<rparr>"
  have run: "Mixture_init m sh rng = Inr (m', rng)"
    using rs groups log1 logs
    by (simp add: Mixture_init_def m'_def d_def [symmetric] gc_def [symmetric])
  have sizes: "Mixture_sizes_ok sh m'"
    using len2 rows2
    by (simp add: Mixture_sizes_ok_def m'_def d_def gc_def list_all_length)
  have "scores_shift m' ! g = cache_shift sh (groups m' ! g)
      \<and> (\<forall>i < unat (dim sh). scores m' ! i ! g = cache_cell sh (groups m' ! g) (of_nat i))"
    if "g < length (groups m')" for g
  proof -
    have g: "g < gc" using that by (simp add: m'_def gc_def)
    have "scores m' ! i ! g = cache_cell sh (groups m' ! g) (of_nat i)" if i: "i < unat (dim sh)" for i
      using cells g i len2 rows2 unat_of_nat_index [OF i]
      by (simp add: m'_def cache_cell_def fast_log_def d_def)
    moreover have "scores_shift m' ! g = cache_shift sh (groups m' ! g)"
      using cells g len2 by (simp add: m'_def cache_shift_def fast_log_def)
    ultimately show ?thesis by simp
  qed
  then have "cache_equivalent sh m'"
    using sizes by (simp add: cache_equivalent_iff)
  then show ?thesis
    using run by (simp add: m'_def)
qed

lemma Mixture_add_group_ok:
  assumes "Mixture_sizes_ok sh m"
  shows "Mixture_add_group m sh rng =
     Inr (m\<lparr>groups := groups m @ [\<lparr>counts = SparseCounter_clear\<rparr>],
            scores_shift := scores_shift m @ [0],
            scores := map (\<lambda>row. row @ [0]) (scores m)\<rparr>, rng)"
proof -
  have n: "unat (dim sh) = length (scores m)"
    and shift: "length (scores_shift m) = length (groups m)"
    and rows: "\<forall>row \<in> set (scores m). length row = length (groups m)"
    using assms by (simp_all add: Mixture_sizes_ok_def list_all_iff)
  have grow: "for_values (\<lambda>v row. Inr (resize (length (groups m) + 1) 0 row))
        [0..<length (scores m)] (scores m)
          = Inr (map (resize (length (groups m) + 1) 0) (scores m))"
    by (rule for_values_all) simp
  have "map (resize (length (groups m) + 1) 0) (scores m) = map (\<lambda>row. row @ [0]) (scores m)"
    using rows resize_grow [where x = "0 :: real"] by (metis (no_types, lifting) map_eq_conv)
  then show ?thesis
    using grow shift resize_grow [of "groups m"] resize_grow [of "scores_shift m" "0 :: real"]
    by (simp add: Mixture_add_group_def n Group_init_def Let_def)
qed

lemma add_group_new_column:
  assumes "Mixture_sizes_ok sh m"
  shows "\<exists>m'. Mixture_add_group m sh rng = Inr (m', rng)
     \<and> length (groups m') = length (groups m) + 1
     \<and> scores_shift m' ! length (groups m) = 0
     \<and> (\<forall>v < unat (dim sh). scores m' ! v ! length (groups m) = 0)
     \<and> cache_shift sh (groups m' ! length (groups m)) = ln (alpha sh)
     \<and> (\<forall>v < dim sh. cache_cell sh (groups m' ! length (groups m)) v
            = ln (alpha sh * betas sh ! unat v))"
proof -
  have n: "unat (dim sh) = length (scores m)"
    and shift: "length (scores_shift m) = length (groups m)"
    using assms by (simp_all add: Mixture_sizes_ok_def)
  have rows: "length (scores m ! v) = length (groups m)" if "v < length (scores m)" for v
    using sizes_ok_row [OF assms that] .
  show ?thesis
    unfolding Mixture_add_group_ok [OF assms]
    using shift rows
    by (simp add: n nth_append cache_shift_def cache_cell_def fast_log_def SparseCounter_clear_def
        get_count_def get_total_def)
qed

section \<open>Mixture: the cache after add_group\<close>

text \<open>
  C1 at a failing input. On \<open>example_shared\<close>, \<^verbatim>\<open>init\<close> on no groups leaves an equivalent cache;
  \<^verbatim>\<open>add_group\<close> then leaves the cell \<^verbatim>\<open>scores[0][0]\<close> at 0 where the closed form is
  \<open>ln (1 / 3)\<close>, and \<^verbatim>\<open>add_value(0, 0)\<close> after it leaves \<^verbatim>\<open>scores[1][0]\<close> at 0 still. Batched
  scoring of the value 1 then adds \<open>- ln 2\<close> for the group, where the scorer of that group
  gives \<open>ln (1 / 6)\<close>.
\<close>

theorem cache_not_equivalent_after_add_group:
  "Mixture_init \<lparr>groups = [], scores = [], scores_shift = []\<rparr> example_shared () = Inr (no_groups, ())
   \<and> cache_equivalent example_shared no_groups
   \<and> Mixture_add_group no_groups example_shared () = Inr (one_new_group, ())
   \<and> \<not> cache_equivalent example_shared one_new_group
   \<and> scores one_new_group ! 0 ! 0 = 0
   \<and> cache_cell example_shared (groups one_new_group ! 0) 0 = ln (1 / 3)
   \<and> Mixture_add_value one_new_group 1 example_shared 0 0 () = Inr (one_group_after_add, ())
   \<and> \<not> cache_equivalent example_shared one_group_after_add
   \<and> scores one_group_after_add ! 1 ! 0 = 0
   \<and> cache_cell example_shared (groups one_group_after_add ! 0) 1 = ln (1 / 3)
   \<and> Mixture_score_value one_group_after_add 1 example_shared 1 [0] () = Inr ([- ln 2], ())
   \<and> score_value example_shared (groups one_group_after_add ! 0) 1 () = Inr (ln (1 / 6), ())"
proof -
  have a: "cache_equivalent example_shared no_groups"
    by (simp add: cache_equivalent_def Mixture_sizes_ok_def dim_example upt_0_3 no_groups_def)
  have b: "\<not> cache_equivalent example_shared one_new_group"
    unfolding cache_equivalent_def dim_example upt_0_3
    by (simp add: one_new_group_def
        cache_cell_def fast_log_def example_shared_def SparseCounter_clear_def get_count_def)
  have c: "\<not> cache_equivalent example_shared one_group_after_add"
    unfolding cache_equivalent_def dim_example upt_0_3
    by (simp add: one_group_after_add_def
        cache_cell_def fast_log_def example_shared_def get_count_def)
  have d: "scores one_new_group ! 0 ! 0 = 0"
    "cache_cell example_shared (groups one_new_group ! 0) 0 = ln (1 / 3)"
    by (simp_all add: one_new_group_def cache_cell_def fast_log_def example_shared_def
        SparseCounter_clear_def get_count_def)
  have e: "scores one_group_after_add ! 1 ! 0 = 0"
    "cache_cell example_shared (groups one_group_after_add ! 0) 1 = ln (1 / 3)"
    by (simp_all add: one_group_after_add_def cache_cell_def fast_log_def example_shared_def
        get_count_def)
  have f: "Mixture_score_value one_group_after_add 1 example_shared 1 [0] () = Inr ([- ln 2], ())"
    by (simp add: Mixture_score_value_def DIST_ASSERT_lvl_def one_group_after_add_def
        example_shared_def vector_add_subtract_def)
  have g: "score_value example_shared (groups one_group_after_add ! 0) 1 () = Inr (ln (1 / 6), ())"
    by (simp add: score_value_def Scorer_init_def Scorer_eval_def one_group_after_add_def
        example_shared_def SparseCounter_items_def get_count_def get_total_def fast_log_def)
  show ?thesis
    using a b c d e f g init_no_groups add_group_no_groups add_value_one_new_group by simp
qed

section \<open>Sampler\<close>

lemma Sampler_add_counts_ok:
  assumes "distinct (map fst xs)" and "\<forall>k \<in> fst ` set xs. unat k < length ps"
  shows "\<exists>ps'. Sampler_add_counts xs ps = Inr ps' \<and> length ps' = length ps
           \<and> (\<forall>v. unat v < length ps \<longrightarrow> ps' ! unat v
                  = ps ! unat v + real (unat (case map_of xs v of None \<Rightarrow> 0 | Some n \<Rightarrow> n)))
           \<and> (\<forall>i. i \<notin> unat ` fst ` set xs \<longrightarrow> ps' ! i = ps ! i)"
  using assms
proof (induction xs arbitrary: ps)
  case Nil
  then show ?case by simp
next
  case (Cons x xs)
  obtain k n where x: "x = (k, n)" by (cases x)
  let ?ps1 = "ps[unat k := ps ! unat k + real (unat n)]"
  have k: "unat k < length ps" and fresh: "map_of xs k = None"
    using Cons.prems by (auto simp: x map_of_eq_None_iff)
  obtain ps' where ps': "Sampler_add_counts xs ?ps1 = Inr ps'" "length ps' = length ps"
    "\<forall>v. unat v < length ps \<longrightarrow> ps' ! unat v
        = ?ps1 ! unat v + real (unat (case map_of xs v of None \<Rightarrow> 0 | Some n \<Rightarrow> n))"
    "\<forall>i. i \<notin> unat ` fst ` set xs \<longrightarrow> ps' ! i = ?ps1 ! i"
    using Cons.IH [of ?ps1] Cons.prems by auto
  have a: "ps' ! unat v = ps ! unat v
          + real (unat (case map_of (x # xs) v of None \<Rightarrow> 0 | Some n \<Rightarrow> n))"
    if "unat v < length ps" for v
  proof (cases "v = k")
    case True
    then show ?thesis
      using ps'(3) that k by (simp add: x fresh)
  next
    case False
    then have "unat v \<noteq> unat k" by (simp add: word_unat_eq_iff)
    then show ?thesis
      using ps'(3) that False by (simp add: x)
  qed
  have b: "ps' ! i = ps ! i" if "i \<notin> unat ` fst ` set (x # xs)" for i
    using ps'(4) that by (auto simp: x)
  show ?case
    using ps'(1,2) k a b by (simp add: x)
qed

text \<open>
  C9: for a group whose present values are all below \<open>betas.size()\<close>, the buffer that
  \<^verbatim>\<open>Sampler::init\<close> has built when it calls \<^verbatim>\<open>sample_dirichlet\<close> has \<open>betas.size() + 1\<close> entries;
  entry \<open>v\<close> is \<open>alpha * betas[v]\<close> plus the group's count of \<open>v\<close> (values are 32-bit, so an
  index from \<open>2^32\<close> on has no count), the last entry is \<open>alpha * beta0\<close>; and \<^verbatim>\<open>init\<close> stores what
  \<^verbatim>\<open>sample_dirichlet\<close> makes of that buffer.
\<close>

theorem Sampler_init_concentrations:
  assumes known: "list_all (\<lambda>(k, n). unat k < length (betas sh)) (entries (counts g))"
  shows "\<exists>ps. Sampler_init_probs sh g = Inr ps
           \<and> length ps = length (betas sh) + 1
           \<and> (\<forall>v. unat v < length (betas sh) \<longrightarrow>
                 ps ! unat v = alpha sh * betas sh ! unat v + real (unat (get_count (counts g) v)))
           \<and> (\<forall>i < length (betas sh). 2 ^ 32 \<le> i \<longrightarrow> ps ! i = alpha sh * betas sh ! i)
           \<and> ps ! length (betas sh) = alpha sh * beta0 sh
           \<and> Sampler_init sample_dirichlet s sh g rng
                = Inr (s\<lparr>probs := fst (sample_dirichlet rng ps)\<rparr>, snd (sample_dirichlet rng ps))"
proof -
  let ?xs = "SparseCounter_items (counts g)"
  let ?ps0 = "map (\<lambda>beta. beta * alpha sh) (betas sh)"
  have range: "\<forall>k \<in> fst ` set ?xs. unat k < length ?ps0"
    using items_in_range [OF known] by simp
  obtain ps' where ps': "Sampler_add_counts ?xs ?ps0 = Inr ps'" "length ps' = length ?ps0"
    "\<forall>v. unat v < length ?ps0 \<longrightarrow> ps' ! unat v
        = ?ps0 ! unat v + real (unat (case map_of ?xs v of None \<Rightarrow> 0 | Some n \<Rightarrow> n))"
    "\<forall>i. i \<notin> unat ` fst ` set ?xs \<longrightarrow> ps' ! i = ?ps0 ! i"
    using Sampler_add_counts_ok [OF items_distinct range] by blast
  let ?ps = "ps' @ [beta0 sh * alpha sh]"
  have run: "Sampler_init_probs sh g = Inr ?ps"
    by (simp add: Sampler_init_probs_def ps'(1))
  have len: "length ps' = length (betas sh)"
    using ps'(2) by simp
  have low: "?ps ! unat v = alpha sh * betas sh ! unat v + real (unat (get_count (counts g) v))"
    if "unat v < length (betas sh)" for v
    using ps'(3) that len by (simp add: nth_append items_count)
  have high: "?ps ! i = alpha sh * betas sh ! i" if "i < length (betas sh)" "2 ^ 32 \<le> i" for i
  proof -
    have "i \<notin> unat ` fst ` set ?xs"
    proof
      assume "i \<in> unat ` fst ` set ?xs"
      then obtain k :: Value where "i = unat k" by blast
      moreover have "unat k < 2 ^ 32"
        using unsigned_less [of k] by simp
      ultimately show False using that(2) by simp
    qed
    then show ?thesis
      using ps'(4) that(1) len by (simp add: nth_append)
  qed
  have final: "?ps ! length (betas sh) = alpha sh * beta0 sh"
    using len by (simp add: nth_append)
  have all: "Sampler_init sample_dirichlet s sh g rng
                = Inr (s\<lparr>probs := fst (sample_dirichlet rng ?ps)\<rparr>, snd (sample_dirichlet rng ?ps))"
    by (simp add: Sampler_init_def run split: prod.split)
  show ?thesis
    apply (rule exI [of _ ?ps])
    using run len low high final all by simp
qed

theorem Sampler_init_concentrations_witness:
  "list_all (\<lambda>(k, n). unat k < length (betas example_shared)) (entries (counts example_group))
   \<and> (\<exists>ps. Sampler_init_probs example_shared example_group = Inr ps
          \<and> ps = [1 / 3, 7 / 3, 1 / 3, 0]
          \<and> Sampler_init example_dirichlet \<lparr>probs = []\<rparr> example_shared example_group ()
               = Inr (\<lparr>probs = [1 / 9, 7 / 9, 1 / 9, 0]\<rparr>, ()))"
proof -
  have h: "list_all (\<lambda>(k, n). unat k < length (betas example_shared))
             (entries (counts example_group))"
    by (simp add: example_shared_def example_group_def)
  have run: "Sampler_init_probs example_shared example_group = Inr [1 / 3, 7 / 3, 1 / 3, 0]"
    by (simp add: Sampler_init_probs_def SparseCounter_items_def example_shared_def
        example_group_def get_count_def)
  from Sampler_init_concentrations [OF h, of example_dirichlet "\<lparr>probs = []\<rparr>" "()"] h
  show ?thesis unfolding run by (auto simp: example_dirichlet_def)
qed


section \<open>Scorer and batched scoring\<close>

lemma Scorer_add_counts_ok:
  assumes "distinct (map fst xs)" and "\<forall>k \<in> fst ` set xs. unat k < sz" and "length sc = sz"
  shows "\<exists>sc'. Scorer_add_counts sz cs xs sc = Inr sc' \<and> length sc' = sz
           \<and> (\<forall>v. unat v < sz \<longrightarrow> sc' ! unat v
                  = sc ! unat v + cs * real (unat (case map_of xs v of None \<Rightarrow> 0 | Some n \<Rightarrow> n)))"
  using assms
proof (induction xs arbitrary: sc)
  case Nil
  then show ?case by simp
next
  case (Cons x xs)
  obtain k n where x: "x = (k, n)" by (cases x)
  let ?sc1 = "sc[unat k := sc ! unat k + cs * real (unat n)]"
  have k: "unat k < sz" and fresh: "map_of xs k = None"
    using Cons.prems by (auto simp: x map_of_eq_None_iff)
  obtain sc' where sc': "Scorer_add_counts sz cs xs ?sc1 = Inr sc'" "length sc' = sz"
    "\<forall>v. unat v < sz \<longrightarrow> sc' ! unat v
        = ?sc1 ! unat v + cs * real (unat (case map_of xs v of None \<Rightarrow> 0 | Some n \<Rightarrow> n))"
    using Cons.IH [of ?sc1] Cons.prems by auto
  have "sc' ! unat v = sc ! unat v
          + cs * real (unat (case map_of (x # xs) v of None \<Rightarrow> 0 | Some n \<Rightarrow> n))"
    if "unat v < sz" for v
  proof (cases "v = k")
    case True
    then show ?thesis
      using sc'(3) that k Cons.prems(3) by (simp add: x fresh)
  next
    case False
    then have "unat v \<noteq> unat k" by (simp add: word_unat_eq_iff)
    then show ?thesis
      using sc'(3) that False by (simp add: x)
  qed
  then show ?case
    using sc'(1,2) k Cons.prems(3) by (simp add: x)
qed

lemma score_value_closed_form:
  assumes v: "unat v < length (betas sh)"
    and known: "list_all (\<lambda>(k, n). unat k < length (betas sh)) (entries (counts g))"
  shows "score_value sh g v rng =
     Inr (fast_log (alpha sh / (alpha sh + real (unat (get_total (counts g)))) * betas sh ! unat v
            + 1 / (alpha sh + real (unat (get_total (counts g))))
              * real (unat (get_count (counts g) v))), rng)"
proof -
  let ?xs = "SparseCounter_items (counts g)"
  let ?T = "alpha sh + real (unat (get_total (counts g)))"
  let ?sc0 = "map (\<lambda>b. alpha sh / ?T * b) (betas sh)"
  have range: "\<forall>k \<in> fst ` set ?xs. unat k < length (betas sh)"
    using items_in_range [OF known] .
  obtain sc' where sc': "Scorer_add_counts (length (betas sh)) (1 / ?T) ?xs ?sc0 = Inr sc'"
    "length sc' = length (betas sh)"
    "\<forall>v. unat v < length (betas sh) \<longrightarrow> sc' ! unat v
        = ?sc0 ! unat v + 1 / ?T * real (unat (case map_of ?xs v of None \<Rightarrow> 0 | Some n \<Rightarrow> n))"
    using Scorer_add_counts_ok [OF items_distinct range, of ?sc0 "1 / ?T"] by auto
  have "Scorer_init \<lparr>scorer_scores = []\<rparr> sh g rng = Inr (\<lparr>scorer_scores = sc'\<rparr>, rng)"
    unfolding Scorer_init_def Let_def sc'(1) by simp
  then show ?thesis
    using sc'(2,3) v by (simp add: score_value_def Scorer_eval_def items_count)
qed

lemma cache_equivalent_cell:
  assumes "cache_equivalent sh m" and "groupid < length (groups m)" and "v < dim sh"
  shows "scores m ! unat v ! groupid = cache_cell sh (groups m ! groupid) v"
    and "scores_shift m ! groupid = cache_shift sh (groups m ! groupid)"
    and "Mixture_sizes_ok sh m"
proof -
  have g: "groupid \<in> set [0..<length (groups m)]" and i: "unat v \<in> set [0..<unat (dim sh)]"
    using assms(2,3) less_dim_unat by simp_all
  have row: "scores_shift m ! groupid = cache_shift sh (groups m ! groupid)
      \<and> list_all (\<lambda>i. scores m ! i ! groupid = cache_cell sh (groups m ! groupid) (of_nat i))
            [0..<unat (dim sh)]"
    using assms(1) g unfolding cache_equivalent_def list_all_iff by blast
  then show "scores_shift m ! groupid = cache_shift sh (groups m ! groupid)" by simp
  have "scores m ! unat v ! groupid = cache_cell sh (groups m ! groupid) (of_nat (unat v))"
    using row i unfolding list_all_iff by blast
  then show "scores m ! unat v ! groupid = cache_cell sh (groups m ! groupid) v" by simp
  show "Mixture_sizes_ok sh m"
    using assms(1) by (simp add: cache_equivalent_def)
qed

lemma example_cache_equivalent: "cache_equivalent example_shared example_mixture"
  unfolding cache_equivalent_def dim_example upt_0_3
  by (simp add: example_sizes_ok)
     (simp add: example_mixture_def example_group_def example_shared_def cache_cell_def
       cache_shift_def fast_log_def get_count_def get_total_def SparseCounter_clear_def)

lemma unat_OTHER: "unat OTHER = 4294967295"
  by (simp add: OTHER_def unsigned_minus_1_eq_mask mask_eq_exp_minus_1)

lemma OTHER_not_small: "OTHER \<noteq> 0" "OTHER \<noteq> 1" "OTHER \<noteq> 2"
  by (simp_all add: OTHER_def)

lemma other_group_added:
  "fst (snd (Group_add_value \<lparr>counts = SparseCounter_clear\<rparr> example_shared OTHER ())) = other_group"
  by (simp add: Group_add_value_def SparseCounter_add_def SparseCounter_clear_def get_count_def
      other_group_def Let_def)

lemma other_mixture_init:
  "Mixture_init \<lparr>groups = [other_group], scores = [], scores_shift = []\<rparr> example_shared ()
     = Inr (other_mixture, ())"
  by (simp add: Mixture_init_def dim_def example_shared_def upt_0_3 replicate_3 resize_def
      vector_log_def other_mixture_def other_group_def OTHER_not_small get_count_def get_total_def)

lemma other_mixture_equivalent: "cache_equivalent example_shared other_mixture"
  unfolding cache_equivalent_def dim_example upt_0_3
  by (simp add: Mixture_sizes_ok_def dim_def upt_0_3 other_mixture_def other_group_def OTHER_not_small
      example_shared_def cache_cell_def cache_shift_def fast_log_def get_count_def get_total_def)

text \<open>
  C2, as stated: in every mixture whose cache is equivalent to its groups, batched scoring
  gives for every active group what the scorer of that group gives. It does not for the
  group that \<^verbatim>\<open>Group::add_value\<close> makes by adding \<^verbatim>\<open>OTHER\<close> to an empty group: \<^verbatim>\<open>init\<close> builds an
  equivalent cache from it and \<^verbatim>\<open>Mixture::score_value\<close> scores the value 0, but \<^verbatim>\<open>Scorer::init\<close>
  fails its assertion on the unknown value.
\<close>

theorem batched_score_counterexample:
  "fst (snd (Group_add_value \<lparr>counts = SparseCounter_clear\<rparr> example_shared OTHER ())) = other_group
   \<and> Mixture_init \<lparr>groups = [other_group], scores = [], scores_shift = []\<rparr> example_shared ()
       = Inr (other_mixture, ())
   \<and> cache_equivalent example_shared other_mixture
   \<and> Mixture_score_value other_mixture 1 example_shared 0 [0] () = Inr ([ln (1 / 3) - ln 2], ())
   \<and> score_value example_shared (groups other_mixture ! 0) 0 () = Inl Contract_violation"
proof -
  have a: "Mixture_score_value other_mixture 1 example_shared 0 [0] ()
      = Inr ([ln (1 / 3) - ln 2], ())"
    by (simp add: Mixture_score_value_def DIST_ASSERT_lvl_def vector_add_subtract_def
        other_mixture_def example_shared_def)
  have b: "score_value example_shared (groups other_mixture ! 0) 0 () = Inl Contract_violation"
    by (simp add: score_value_def Scorer_init_def SparseCounter_items_def other_mixture_def
        other_group_def unat_OTHER example_shared_def get_count_def get_total_def)
  show ?thesis
    using other_group_added other_mixture_init other_mixture_equivalent a b by simp
qed


text \<open>
  C2, amended: in a mixture whose cache is equivalent to its groups, for an active group
  \<open>groupid\<close> whose present values are all below \<open>betas.size()\<close> and a value \<open>v < dim\<close>, entry
  \<open>groupid\<close> of what \<^verbatim>\<open>Mixture::score_value\<close> leaves in a zero-initialised buffer equals what
  the scorer of that group returns for \<open>v\<close>, in exact arithmetic, where both logarithms are
  of positive numbers.
\<close>

theorem batched_score_equals_scorer:
  assumes gid: "groupid < length (groups m)" and v: "v < dim sh"
    and cache: "cache_equivalent sh m"
    and known: "list_all (\<lambda>(k, n). unat k < length (betas sh))
                  (entries (counts (groups m ! groupid)))"
    and total_pos: "0 < alpha sh + real (unat (get_total (counts (groups m ! groupid))))"
    and cell_pos: "0 < alpha sh * betas sh ! unat v
                      + real (unat (get_count (counts (groups m ! groupid)) v))"
  shows "\<exists>accum x. Mixture_score_value m lvl sh v (replicate (length (groups m)) 0) rng
                     = Inr (accum, rng)
           \<and> score_value sh (groups m ! groupid) v rng = Inr (x, rng)
           \<and> accum ! groupid = x"
proof -
  let ?g = "groups m ! groupid"
  let ?T = "alpha sh + real (unat (get_total (counts ?g)))"
  let ?C = "alpha sh * betas sh ! unat v + real (unat (get_count (counts ?g) v))"
  note cells = cache_equivalent_cell [OF cache gid v]
  obtain accum where accum:
    "Mixture_score_value m lvl sh v (replicate (length (groups m)) 0) rng = Inr (accum, rng)"
    "\<forall>g < length (groups m). accum ! g
        = replicate (length (groups m)) 0 ! g + (scores m ! unat v ! g - scores_shift m ! g)"
    using Mixture_score_value_ok [OF v cells(3), of "replicate (length (groups m)) 0" lvl rng]
    by simp
  have batched: "accum ! groupid = ln ?C - ln ?T"
    using accum(2) gid cells(1,2) by (simp add: cache_cell_def cache_shift_def fast_log_def)
  have "alpha sh / ?T * betas sh ! unat v + 1 / ?T * real (unat (get_count (counts ?g) v)) = ?C / ?T"
    by (simp add: add_divide_distrib)
  then have single: "score_value sh ?g v rng = Inr (ln (?C / ?T), rng)"
    using score_value_closed_form [OF less_dim_betas [OF v] known, of rng]
    by (simp only: fast_log_def)
  have "ln (?C / ?T) = ln ?C - ln ?T"
    using cell_pos total_pos by (rule ln_divide_pos)
  then show ?thesis
    using accum(1) batched single by simp
qed

theorem batched_score_equals_scorer_witness:
  "1 < length (groups example_mixture) \<and> 1 < dim example_shared
   \<and> cache_equivalent example_shared example_mixture
   \<and> list_all (\<lambda>(k, n). unat k < length (betas example_shared))
        (entries (counts (groups example_mixture ! 1)))
   \<and> 0 < alpha example_shared + real (unat (get_total (counts (groups example_mixture ! 1))))
   \<and> 0 < alpha example_shared * betas example_shared ! unat (1 :: Value)
           + real (unat (get_count (counts (groups example_mixture ! 1)) 1))
   \<and> (\<exists>accum x. Mixture_score_value example_mixture 1 example_shared 1 [0, 0] ()
                   = Inr (accum, ())
          \<and> score_value example_shared (groups example_mixture ! 1) 1 () = Inr (x, ())
          \<and> accum ! 1 = x \<and> accum ! 1 = ln (7 / 3) - ln 3)"
proof -
  have h: "1 < length (groups example_mixture)" "1 < dim example_shared"
    "list_all (\<lambda>(k, n). unat k < length (betas example_shared))
        (entries (counts (groups example_mixture ! 1)))"
    "0 < alpha example_shared + real (unat (get_total (counts (groups example_mixture ! 1))))"
    "0 < alpha example_shared * betas example_shared ! unat (1 :: Value)
           + real (unat (get_count (counts (groups example_mixture ! 1)) 1))"
    by (simp_all add: dim_def example_shared_def example_mixture_def example_group_def
        get_count_def get_total_def)
  have len: "replicate (length (groups example_mixture)) (0 :: real) = [0, 0]"
    by (simp add: example_mixture_def)
  have run: "Mixture_score_value example_mixture 1 example_shared 1 [0, 0] ()
      = Inr ([ln (1 / 3) - ln 1, ln (7 / 3) - ln 3], ())"
    by (simp add: Mixture_score_value_def DIST_ASSERT_lvl_def vector_add_subtract_def
        example_mixture_def example_shared_def)
  from batched_score_equals_scorer [OF h(1,2) example_cache_equivalent h(3,4,5), of 1 "()"]
    h example_cache_equivalent
  show ?thesis unfolding len run by auto
qed

end
